theory Spec2Isabelle
  imports Main
begin

section \<open>JavaScript strings and numbers\<close>

text \<open>
  Strings are byte strings: an ASCII string of the program is the same list of
  characters here.  The operations below act on ASCII the way their JavaScript
  namesakes do; what JavaScript does beyond ASCII (Unicode white space in
  \<open>trim\<close>, case mapping of non-ASCII letters) is outside this development.
\<close>

definition charCode :: "char \<Rightarrow> nat" where
  "charCode c = of_char c"

definition toLowerChar :: "char \<Rightarrow> char" where
  "toLowerChar c = (if 65 \<le> charCode c \<and> charCode c \<le> 90 then char_of (charCode c + 32) else c)"

definition toLowerCase :: "string \<Rightarrow> string" where
  "toLowerCase s = map toLowerChar s"

definition startsWith :: "string \<Rightarrow> string \<Rightarrow> bool" where
  "startsWith s p = (take (length p) s = p)"

definition endsWith :: "string \<Rightarrow> string \<Rightarrow> bool" where
  "endsWith s p = (length p \<le> length s \<and> drop (length s - length p) s = p)"

fun includesStr :: "string \<Rightarrow> string \<Rightarrow> bool" where
  "includesStr [] p = (p = [])"
| "includesStr (c # cs) p = (startsWith (c # cs) p \<or> includesStr cs p)"

definition isWhiteSpace :: "char \<Rightarrow> bool" where
  "isWhiteSpace c = (charCode c = 32 \<or> (9 \<le> charCode c \<and> charCode c \<le> 13))"

definition trim :: "string \<Rightarrow> string" where
  "trim s = rev (dropWhile isWhiteSpace (rev (dropWhile isWhiteSpace s)))"

fun digits :: "nat \<Rightarrow> string" where
  "digits n = (if n < 10 then [char_of (48 + n)]
               else digits (n div 10) @ [char_of (48 + n mod 10)])"

declare digits.simps [simp del]

text \<open>\<open>`${n}`\<close> for an integer-valued number.\<close>

definition numToString :: "int \<Rightarrow> string" where
  "numToString i = (if i < 0 then CHR ''-'' # digits (nat (- i)) else digits (nat i))"


section \<open>The platform's URL parser\<close>

text \<open>
  \<open>new URL(s)\<close> is not code of the repository: it is modelled after the WHATWG URL
  standard, for the only inputs \<open>UrlNormalizer\<close> hands to it, absolute URLs whose
  scheme is \<open>http\<close> or \<open>https\<close> (both "special" schemes, parsed without a base URL).
  \<open>None\<close> is the \<open>TypeError\<close> the constructor throws.  Of the parsed URL only
  the getters the normalizer reads are kept.  Limits of the model: a host with a
  non-ASCII byte (IDNA, Punycode) and a bracketed IPv6 literal are not parsed
  and reported as failures; every statement below that depends on the parser
  is either about a concrete ASCII input or assumes a successful parse.
\<close>

record URL =
  protocol :: string
  hostname :: string
  port :: string
  pathname :: string
  search :: string
  hash :: string

subsection \<open>Percent-encoding\<close>

definition hexDigit :: "nat \<Rightarrow> char" where
  "hexDigit n = (if n < 10 then char_of (48 + n) else char_of (55 + n))"

definition percentEncodeByte :: "char \<Rightarrow> string" where
  "percentEncodeByte c = [CHR ''%'', hexDigit (charCode c div 16), hexDigit (charCode c mod 16)]"

definition c0ControlSet :: "char \<Rightarrow> bool" where
  "c0ControlSet c = (charCode c < 32 \<or> 126 < charCode c)"

definition fragmentSet :: "char \<Rightarrow> bool" where
  "fragmentSet c = (c0ControlSet c \<or> charCode c \<in> {32, 34, 60, 62, 96})"

definition querySet :: "char \<Rightarrow> bool" where
  "querySet c = (c0ControlSet c \<or> charCode c \<in> {32, 34, 35, 60, 62})"

definition specialQuerySet :: "char \<Rightarrow> bool" where
  "specialQuerySet c = (querySet c \<or> charCode c = 39)"

definition pathSet :: "char \<Rightarrow> bool" where
  "pathSet c = (querySet c \<or> charCode c \<in> {63, 96, 123, 125})"

definition percentEncodeChar :: "(char \<Rightarrow> bool) \<Rightarrow> char \<Rightarrow> string" where
  "percentEncodeChar S c = (if S c then percentEncodeByte c else [c])"

definition percentEncode :: "(char \<Rightarrow> bool) \<Rightarrow> string \<Rightarrow> string" where
  "percentEncode S s = concat (map (percentEncodeChar S) s)"

definition digitVal :: "char \<Rightarrow> nat option" where
  "digitVal c =
     (if 48 \<le> charCode c \<and> charCode c \<le> 57 then Some (charCode c - 48)
      else if 97 \<le> charCode c \<and> charCode c \<le> 102 then Some (charCode c - 87)
      else if 65 \<le> charCode c \<and> charCode c \<le> 70 then Some (charCode c - 55)
      else None)"

fun percentDecode :: "string \<Rightarrow> string" where
  "percentDecode (c # a # b # cs) =
     (case (digitVal a, digitVal b) of
        (Some x, Some y) \<Rightarrow>
          (if c = CHR ''%'' then char_of (16 * x + y) # percentDecode cs
           else c # percentDecode (a # b # cs))
      | _ \<Rightarrow> c # percentDecode (a # b # cs))"
| "percentDecode cs = cs"

subsection \<open>Path, query and fragment\<close>

definition isSlash :: "char \<Rightarrow> bool" where
  "isSlash c = (charCode c = 47 \<or> charCode c = 92)"

definition isSingleDot :: "string \<Rightarrow> bool" where
  "isSingleDot buf = (toLowerCase buf \<in> {''.'', ''%2e''})"

definition isDoubleDot :: "string \<Rightarrow> bool" where
  "isDoubleDot buf = (toLowerCase buf \<in> {''..'', ''.%2e'', ''%2e.'', ''%2e%2e''})"

text \<open>
  The end of a path segment in the path state: \<open>atSlash\<close> says that the segment
  was ended by a slash (or backslash), not by the end of the path.
\<close>

definition endSegment :: "bool \<Rightarrow> string \<Rightarrow> string list \<Rightarrow> string list" where
  "endSegment atSlash buf path =
     (if isDoubleDot buf then (if atSlash then butlast path else butlast path @ [[]])
      else if isSingleDot buf then (if atSlash then path else path @ [[]])
      else path @ [buf])"

fun pathState :: "string \<Rightarrow> string \<Rightarrow> string list \<Rightarrow> string list" where
  "pathState [] buf path = endSegment False buf path"
| "pathState (c # cs) buf path =
     (if isSlash c then pathState cs [] (endSegment True buf path)
      else pathState cs (buf @ percentEncodeChar pathSet c) path)"

text \<open>
  The path start state consumes one leading slash; the rest runs through the
  path state.  The getter \<open>pathname\<close> writes a slash before every segment.
\<close>

definition parsePath :: "string \<Rightarrow> string list" where
  "parsePath s = pathState (case s of [] \<Rightarrow> [] | c # cs \<Rightarrow> if isSlash c then cs else c # cs) [] []"

definition serializePath :: "string list \<Rightarrow> string" where
  "serializePath segs = concat (map (\<lambda>seg. CHR ''/'' # seg) segs)"

definition isPathEnd :: "char \<Rightarrow> bool" where
  "isPathEnd c = (charCode c = 63 \<or> charCode c = 35)"

definition isHash :: "char \<Rightarrow> bool" where
  "isHash c = (charCode c = 35)"

text \<open>
  What follows the authority: the path up to the first \<open>?\<close> or \<open>#\<close>, the query up
  to the first \<open>#\<close>, the fragment.  The getters \<open>search\<close> and \<open>hash\<close> are empty
  for an empty query or fragment.
\<close>

definition tailPathname :: "string \<Rightarrow> string" where
  "tailPathname t = serializePath (parsePath (takeWhile (\<lambda>c. \<not> isPathEnd c) t))"

definition tailSearch :: "string \<Rightarrow> string" where
  "tailSearch t =
     (case dropWhile (\<lambda>c. \<not> isPathEnd c) t of
        [] \<Rightarrow> []
      | c # cs \<Rightarrow>
          if isHash c then []
          else (let q = percentEncode specialQuerySet (takeWhile (\<lambda>c. \<not> isHash c) cs)
                in if q = [] then [] else CHR ''?'' # q))"

definition tailHash :: "string \<Rightarrow> string" where
  "tailHash t =
     (case dropWhile (\<lambda>c. \<not> isHash c) t of
        [] \<Rightarrow> []
      | c # cs \<Rightarrow>
          (let f = percentEncode fragmentSet cs in if f = [] then [] else CHR ''#'' # f))"

subsection \<open>Host and port\<close>

definition forbiddenHostCodePoint :: "char \<Rightarrow> bool" where
  "forbiddenHostCodePoint c =
     (charCode c \<in> {0, 9, 10, 13, 32, 35, 47, 58, 60, 62, 63, 64, 91, 92, 93, 94, 124})"

definition forbiddenDomainCodePoint :: "char \<Rightarrow> bool" where
  "forbiddenDomainCodePoint c =
     (forbiddenHostCodePoint c \<or> charCode c \<le> 31 \<or> charCode c = 37 \<or> charCode c = 127)"

fun splitOn :: "char \<Rightarrow> string \<Rightarrow> string list" where
  "splitOn d [] = [[]]"
| "splitOn d (c # cs) =
     (if c = d then [] # splitOn d cs
      else (case splitOn d cs of [] \<Rightarrow> [[c]] | p # ps \<Rightarrow> (c # p) # ps))"

fun parseRadix :: "nat \<Rightarrow> nat \<Rightarrow> string \<Rightarrow> nat option" where
  "parseRadix R acc [] = Some acc"
| "parseRadix R acc (c # cs) =
     (case digitVal c of
        None \<Rightarrow> None
      | Some d \<Rightarrow> if d < R then parseRadix R (acc * R + d) cs else None)"

definition parseIPv4Number :: "string \<Rightarrow> nat option" where
  "parseIPv4Number s =
     (if s = [] then None
      else if 2 \<le> length s \<and> toLowerCase (take 2 s) = ''0x'' then parseRadix 16 0 (drop 2 s)
      else if 2 \<le> length s \<and> hd s = CHR ''0'' then parseRadix 8 0 (tl s)
      else parseRadix 10 0 s)"

definition ipv4Parts :: "string \<Rightarrow> string list" where
  "ipv4Parts s =
     (let parts = splitOn (CHR ''.'') s
      in if last parts = [] \<and> 1 < length parts then butlast parts else parts)"

definition isDigit :: "char \<Rightarrow> bool" where
  "isDigit c = (48 \<le> charCode c \<and> charCode c \<le> 57)"

definition endsInANumber :: "string \<Rightarrow> bool" where
  "endsInANumber s =
     (if s = [] then False
      else (let l = last (ipv4Parts s)
            in (l \<noteq> [] \<and> list_all isDigit l) \<or> parseIPv4Number l \<noteq> None))"

definition ipv4Parse :: "string \<Rightarrow> nat option" where
  "ipv4Parse s =
     (let parts = ipv4Parts s
      in if 4 < length parts then None
         else (case those (map parseIPv4Number parts) of
                 None \<Rightarrow> None
               | Some ns \<Rightarrow>
                   if list_ex (\<lambda>n. 255 < n) (butlast ns) \<or> 256 ^ (5 - length ns) \<le> last ns
                   then None
                   else Some (last ns +
                          sum_list (map (\<lambda>(i, n). n * 256 ^ (3 - i))
                                        (zip [0 ..< length ns - 1] (butlast ns))))))"

definition serializeIPv4 :: "nat \<Rightarrow> string" where
  "serializeIPv4 n =
     digits (n div 16777216 mod 256) @ ''.'' @ digits (n div 65536 mod 256) @ ''.'' @
     digits (n div 256 mod 256) @ ''.'' @ digits (n mod 256)"

text \<open>
  Domain to ASCII, for an ASCII domain: lower-casing.  (A label that starts with
  \<open>xn--\<close> is passed on as it is; its Punycode is not checked.)
\<close>

definition domainToASCII :: "string \<Rightarrow> string option" where
  "domainToASCII d = (if list_all (\<lambda>c. charCode c < 128) d then Some (toLowerCase d) else None)"

definition hostParse :: "string \<Rightarrow> string option" where
  "hostParse input =
     (if startsWith input ''['' then None
      else (case domainToASCII (percentDecode input) of
              None \<Rightarrow> None
            | Some a \<Rightarrow>
                if a = [] \<or> list_ex forbiddenDomainCodePoint a then None
                else if endsInANumber a then map_option serializeIPv4 (ipv4Parse a)
                else Some a))"

definition defaultPort :: "string \<Rightarrow> nat" where
  "defaultPort scheme = (if scheme = ''https'' then 443 else 80)"

definition portParse :: "string \<Rightarrow> string \<Rightarrow> string option" where
  "portParse scheme buf =
     (if buf = [] then Some []
      else if \<not> list_all isDigit buf then None
      else (case parseRadix 10 0 buf of
              None \<Rightarrow> None
            | Some n \<Rightarrow>
                if 65535 < n then None
                else if n = defaultPort scheme then Some []
                else Some (digits n)))"

text \<open>
  The host state: the host runs up to the first colon outside square brackets,
  the port is what follows that colon.
\<close>

fun splitHostPort :: "bool \<Rightarrow> string \<Rightarrow> string \<Rightarrow> string \<times> string" where
  "splitHostPort inside buf [] = (buf, [])"
| "splitHostPort inside buf (c # cs) =
     (if charCode c = 58 \<and> \<not> inside then (buf, cs)
      else splitHostPort (if charCode c = 91 then True else if charCode c = 93 then False else inside)
             (buf @ [c]) cs)"

subsection \<open>The parser\<close>

definition isC0OrSpace :: "char \<Rightarrow> bool" where
  "isC0OrSpace c = (charCode c \<le> 32)"

definition isTabOrNewline :: "char \<Rightarrow> bool" where
  "isTabOrNewline c = (charCode c \<in> {9, 10, 13})"

definition preprocess :: "string \<Rightarrow> string" where
  "preprocess s =
     filter (\<lambda>c. \<not> isTabOrNewline c)
       (rev (dropWhile isC0OrSpace (rev (dropWhile isC0OrSpace s))))"

definition isAuthorityEnd :: "char \<Rightarrow> bool" where
  "isAuthorityEnd c = (isSlash c \<or> isPathEnd c)"

definition afterLastAt :: "string \<Rightarrow> string" where
  "afterLastAt a = rev (takeWhile (\<lambda>c. charCode c \<noteq> 64) (rev a))"

text \<open>
  After the scheme and its colon: all slashes and backslashes are skipped, the
  authority runs up to the first slash, backslash, \<open>?\<close> or \<open>#\<close>; credentials (up
  to the last \<open>@\<close>) are parsed but not read by the normalizer.
\<close>

definition parseSpecial :: "string \<Rightarrow> string \<Rightarrow> URL option" where
  "parseSpecial scheme rest =
     (let r = dropWhile isSlash rest;
          authority = takeWhile (\<lambda>c. \<not> isAuthorityEnd c) r;
          t = dropWhile (\<lambda>c. \<not> isAuthorityEnd c) r;
          hp = splitHostPort False [] (afterLastAt authority)
      in if fst hp = [] then None
         else (case hostParse (fst hp) of
                 None \<Rightarrow> None
               | Some h \<Rightarrow>
                   (case portParse scheme (snd hp) of
                      None \<Rightarrow> None
                    | Some p \<Rightarrow>
                        Some \<lparr>protocol = scheme @ '':'', hostname = h, port = p,
                              pathname = tailPathname t, search = tailSearch t,
                              hash = tailHash t\<rparr>)))"

definition URL_parse :: "string \<Rightarrow> URL option" where
  "URL_parse s =
     (let i = preprocess s;
          scheme = toLowerCase (takeWhile (\<lambda>c. charCode c \<noteq> 58) i);
          rest = drop 1 (dropWhile (\<lambda>c. charCode c \<noteq> 58) i)
      in if scheme = ''https'' \<or> scheme = ''http'' then parseSpecial scheme rest else None)"


section \<open>UrlNormalizer\<close>

text \<open>The test \<open>/^https?:\/\//\<close>: case-sensitive, anchored at the start.\<close>

definition hasProtocol :: "string \<Rightarrow> bool" where
  "hasProtocol s = (startsWith s ''http://'' \<or> startsWith s ''https://'')"

text \<open>\<open>s.replace(/^https?:\/\//, '')\<close>\<close>

definition stripProtocol :: "string \<Rightarrow> string" where
  "stripProtocol s =
     (if startsWith s ''https://'' then drop 8 s
      else if startsWith s ''http://'' then drop 7 s
      else s)"

definition stripWww :: "string \<Rightarrow> string" where
  "stripWww h = (if startsWith h ''www.'' then drop 4 h else h)"

text \<open>The body of the \<open>try\<close> block after the URL has been parsed.\<close>

definition rebuild :: "URL \<Rightarrow> string" where
  "rebuild urlObj =
     (let hostname = stripWww (toLowerCase (hostname urlObj));
          normalized = protocol urlObj @ ''//'' @ hostname;
          normalized = (if port urlObj \<noteq> [] then normalized @ '':'' @ port urlObj
                        else normalized);
          pathname = (if pathname urlObj = ''/'' then []
                      else if endsWith (pathname urlObj) ''/'' \<and> 1 < length (pathname urlObj)
                      then butlast (pathname urlObj)
                      else pathname urlObj);
          normalized = normalized @ pathname;
          normalized = (if search urlObj \<noteq> [] then normalized @ search urlObj else normalized);
          normalized = (if hash urlObj \<noteq> [] then normalized @ hash urlObj else normalized)
      in stripProtocol normalized)"

text \<open>
  The \<open>catch\<close> block.  The match \<open>/^([^\/\?\#]+)(.*)/\<close> needs a first character that
  is none of \<open>/ ? #\<close>; its second group stops at the first line terminator, so
  what follows one is dropped.
\<close>

definition isLineTerminator :: "char \<Rightarrow> bool" where
  "isLineTerminator c = (charCode c = 10 \<or> charCode c = 13)"

definition inHostClass :: "char \<Rightarrow> bool" where
  "inHostClass c = (charCode c \<noteq> 47 \<and> charCode c \<noteq> 63 \<and> charCode c \<noteq> 35)"

definition fallback :: "string \<Rightarrow> string" where
  "fallback url =
     (let fb = stripProtocol (trim url);
          g1 = takeWhile inHostClass fb;
          g2 = takeWhile (\<lambda>c. \<not> isLineTerminator c) (dropWhile inHostClass fb)
      in if g1 = [] then fb else stripWww (toLowerCase g1) @ g2)"

definition normalize :: "string \<Rightarrow> string" where
  "normalize url =
     (let workingUrl = trim url;
          workingUrl = (if hasProtocol workingUrl then workingUrl else ''https://'' @ workingUrl)
      in case URL_parse workingUrl of
           Some urlObj \<Rightarrow> rebuild urlObj
         | None \<Rightarrow> fallback url)"

definition getCanonicalUrl :: "string \<Rightarrow> string" where
  "getCanonicalUrl url = ''https://'' @ normalize url"

definition areEquivalent :: "string \<Rightarrow> string \<Rightarrow> bool" where
  "areEquivalent url1 url2 = (normalize url1 = normalize url2)"


section \<open>HttpErrorHandler\<close>

text \<open>
  The argument \<open>error: any\<close> is \<open>null\<close> (\<open>None\<close>) or an object of which the
  classifier reads \<open>name\<close>, \<open>message\<close>, \<open>status\<close> and \<open>code\<close>; \<open>response\<close> is absent or
  an object whose \<open>status()\<close> is a number.  Reading a property of \<open>null\<close> throws a
  \<open>TypeError\<close>.
\<close>

datatype jsval = Undefined | Num int | Str string

definition truthy :: "jsval \<Rightarrow> bool" where
  "truthy v = (case v of Undefined \<Rightarrow> False | Num n \<Rightarrow> n \<noteq> 0 | Str s \<Rightarrow> s \<noteq> [])"

definition orElse :: "jsval \<Rightarrow> jsval \<Rightarrow> jsval" where
  "orElse a b = (if truthy a then a else b)"

record jsError =
  err_name :: string
  err_message :: "string option"
  err_status :: jsval
  err_code :: jsval

datatype exn = TypeError string

definition exnMessage :: "exn \<Rightarrow> string" where
  "exnMessage e = (case e of TypeError m \<Rightarrow> m)"

definition thrown :: "exn \<Rightarrow> jsError" where
  "thrown e = \<lparr>err_name = ''TypeError'', err_message = Some (exnMessage e),
                err_status = Undefined, err_code = Undefined\<rparr>"

definition nullMessageError :: exn where
  "nullMessageError = TypeError ''Cannot read properties of null (reading 'message')''"

record HttpErrorResult =
  her_canRetry :: bool
  her_errorMessage :: string
  her_httpStatus :: "int option"
  her_isTemporary :: bool

definition handleHttpStatus :: "int \<Rightarrow> string \<Rightarrow> HttpErrorResult" where
  "handleHttpStatus status message =
     (if status = 200 then
        \<lparr>her_canRetry = False, her_errorMessage = ''Success'',
         her_httpStatus = Some status, her_isTemporary = False\<rparr>
      else if status \<in> {400, 401, 403, 404} then
        \<lparr>her_canRetry = False,
         her_errorMessage = ''Client error '' @ numToString status @ '': '' @ message,
         her_httpStatus = Some status, her_isTemporary = False\<rparr>
      else if status \<in> {408, 429} then
        \<lparr>her_canRetry = True,
         her_errorMessage = ''Rate limited or timeout '' @ numToString status @ '': '' @ message,
         her_httpStatus = Some status, her_isTemporary = True\<rparr>
      else if status \<in> {500, 502, 503, 504} then
        \<lparr>her_canRetry = True,
         her_errorMessage = ''Server error '' @ numToString status @ '': '' @ message,
         her_httpStatus = Some status, her_isTemporary = True\<rparr>
      else if 200 \<le> status \<and> status < 300 then
        \<lparr>her_canRetry = False, her_errorMessage = ''Success'',
         her_httpStatus = Some status, her_isTemporary = False\<rparr>
      else if 400 \<le> status \<and> status < 500 then
        \<lparr>her_canRetry = False,
         her_errorMessage = ''Client error '' @ numToString status @ '': '' @ message,
         her_httpStatus = Some status, her_isTemporary = False\<rparr>
      else if 500 \<le> status then
        \<lparr>her_canRetry = True,
         her_errorMessage = ''Server error '' @ numToString status @ '': '' @ message,
         her_httpStatus = Some status, her_isTemporary = True\<rparr>
      else
        \<lparr>her_canRetry = False,
         her_errorMessage = ''Unknown status '' @ numToString status @ '': '' @ message,
         her_httpStatus = Some status, her_isTemporary = False\<rparr>)"

definition handleChromeNetworkError :: "string \<Rightarrow> HttpErrorResult" where
  "handleChromeNetworkError errorMessage =
     (if includesStr errorMessage ''ERR_CONNECTION_REFUSED'' then
        \<lparr>her_canRetry = True, her_errorMessage = ''Connection refused'',
         her_httpStatus = Some 503, her_isTemporary = True\<rparr>
      else if includesStr errorMessage ''ERR_CONNECTION_TIMED_OUT'' \<or>
              includesStr errorMessage ''ERR_TIMED_OUT'' then
        \<lparr>her_canRetry = True, her_errorMessage = ''Connection timeout'',
         her_httpStatus = Some 408, her_isTemporary = True\<rparr>
      else if includesStr errorMessage ''ERR_NAME_NOT_RESOLVED'' then
        \<lparr>her_canRetry = False, her_errorMessage = ''DNS resolution failed'',
         her_httpStatus = Some 404, her_isTemporary = False\<rparr>
      else if includesStr errorMessage ''ERR_CERT_'' then
        \<lparr>her_canRetry = False, her_errorMessage = ''SSL certificate error'',
         her_httpStatus = Some 502, her_isTemporary = False\<rparr>
      else if includesStr errorMessage ''ERR_NETWORK_CHANGED'' \<or>
              includesStr errorMessage ''ERR_INTERNET_DISCONNECTED'' then
        \<lparr>her_canRetry = True, her_errorMessage = ''Network connectivity issue'',
         her_httpStatus = Some 503, her_isTemporary = True\<rparr>
      else
        \<lparr>her_canRetry = True,
         her_errorMessage = ''Chrome network error: '' @ errorMessage,
         her_httpStatus = Some 503, her_isTemporary = True\<rparr>)"

definition messageOr :: "string option \<Rightarrow> string \<Rightarrow> string" where
  "messageOr m d = (case m of None \<Rightarrow> d | Some s \<Rightarrow> if s = [] then d else s)"

definition messageIncludes :: "string option \<Rightarrow> string \<Rightarrow> bool" where
  "messageIncludes m p = (case m of None \<Rightarrow> False | Some s \<Rightarrow> includesStr s p)"

text \<open>The branches of \<open>handle\<close> that read \<open>error\<close> unguarded, for an error object.\<close>

definition handleError :: "jsError \<Rightarrow> HttpErrorResult" where
  "handleError error =
     (if messageIncludes (err_message error) ''net::ERR_'' then
        handleChromeNetworkError (the (err_message error))
      else if err_name error = ''TimeoutError'' \<or> messageIncludes (err_message error) ''timeout'' then
        \<lparr>her_canRetry = True, her_errorMessage = ''Request timeout'',
         her_httpStatus = Some 408, her_isTemporary = True\<rparr>
      else if err_code error = Str ''ENOTFOUND'' then
        \<lparr>her_canRetry = False, her_errorMessage = ''DNS resolution failed: ENOTFOUND'',
         her_httpStatus = None, her_isTemporary = False\<rparr>
      else if err_code error = Str ''ECONNREFUSED'' then
        \<lparr>her_canRetry = True, her_errorMessage = ''Connection refused: ECONNREFUSED'',
         her_httpStatus = None, her_isTemporary = True\<rparr>
      else if err_code error = Str ''ECONNRESET'' then
        \<lparr>her_canRetry = True, her_errorMessage = ''Connection error: ECONNRESET'',
         her_httpStatus = None, her_isTemporary = True\<rparr>
      else if err_code error = Str ''ETIMEDOUT'' then
        \<lparr>her_canRetry = True, her_errorMessage = ''Connection error: ETIMEDOUT'',
         her_httpStatus = None, her_isTemporary = True\<rparr>
      else
        \<lparr>her_canRetry = True, her_errorMessage = messageOr (err_message error) ''Unknown error'',
         her_httpStatus = None, her_isTemporary = True\<rparr>)"

text \<open>
  \<open>handle(error, response)\<close>.  The status is
  \<open>response?.status() || error?.status || error?.code\<close>, read with optional
  chaining; the next reads, \<open>error.message\<close>, are not guarded.
\<close>

definition handle :: "jsError option \<Rightarrow> int option \<Rightarrow> exn + HttpErrorResult" where
  "handle error response =
     (let httpStatus =
            orElse (orElse (case response of None \<Rightarrow> Undefined | Some s \<Rightarrow> Num s)
                           (case error of None \<Rightarrow> Undefined | Some e \<Rightarrow> err_status e))
                   (case error of None \<Rightarrow> Undefined | Some e \<Rightarrow> err_code e)
      in case httpStatus of
           Num n \<Rightarrow>
             (case error of
                None \<Rightarrow> Inl nullMessageError
              | Some e \<Rightarrow> Inr (handleHttpStatus n (messageOr (err_message e) ''HTTP error'')))
         | _ \<Rightarrow>
             (case error of
                None \<Rightarrow> Inl nullMessageError
              | Some e \<Rightarrow> Inr (handleError e)))"


section \<open>Messages\<close>

record ScrapeRequest =
  req_id :: nat
  req_url :: string
  req_retryCount :: "int option"
  req_priority :: "int option"

record ScrapeStarted =
  st_id :: nat
  st_url :: string
  st_startedAt :: int
  st_userAgent :: string

record ScrapeResult =
  res_id :: nat
  res_url :: string
  res_success :: bool
  res_content :: "string option"
  res_contentType :: "string option"
  res_httpStatus :: "int option"
  res_errorMessage :: "string option"
  res_finalUrl :: "string option"
  res_responseTime :: int
  res_contentLength :: int
  res_contentHash :: "string option"
  res_userAgent :: string
  res_redirectChain :: "string list option"
  res_scrapedAt :: int

record ScrapeFailure =
  fail_id :: nat
  fail_url :: string
  fail_errorMessage :: string
  fail_retryCount :: int
  fail_maxRetries :: int
  fail_canRetry :: bool
  fail_httpStatus :: "int option"
  fail_failedAt :: int


section \<open>ScraperService (the worker)\<close>

text \<open>
  \<open>createFailure\<close>; \<open>maxRetries\<close> is the worker's \<open>this.retryCount\<close> (its
  \<open>MAX_RETRIES\<close>), \<open>now\<close> the clock.
\<close>

definition createFailure ::
  "int \<Rightarrow> int \<Rightarrow> ScrapeRequest \<Rightarrow> string \<Rightarrow> bool \<Rightarrow> int option \<Rightarrow> ScrapeFailure" where
  "createFailure maxRetries now request errorMessage canRetry httpStatus =
     (let retryCount = (case req_retryCount request of None \<Rightarrow> 0 | Some k \<Rightarrow> k)
      in \<lparr>fail_id = req_id request, fail_url = req_url request,
           fail_errorMessage = errorMessage, fail_retryCount = retryCount,
           fail_maxRetries = maxRetries,
           fail_canRetry = (canRetry \<and> retryCount < maxRetries),
           fail_httpStatus = httpStatus, fail_failedAt = now\<rparr>)"

text \<open>
  What the browser gives back to \<open>page.goto\<close> and \<open>page.content\<close>: an error thrown,
  no response, or a response with its page.  The SHA-256 of the content comes
  with the page.
\<close>

record Page =
  page_status :: int
  page_url :: string
  page_redirectChain :: "string list"
  page_contentTypeHeader :: "string option"
  page_content :: string
  page_byteLength :: int
  page_sha256 :: string

datatype navigation = Throws jsError | NoResponse | Response Page

definition userAgentString :: string where
  "userAgentString = ''Mozilla/5.0 (Windows NT 10.0; Win64; x64) AppleWebKit/537.36 (KHTML, like Gecko) Chrome/91.0.4472.124 Safari/537.36''"

text \<open>
  The \<open>catch\<close> block of \<open>scrapeUrl\<close>.  Were the classifier to throw here, the
  consumer's own \<open>catch\<close> would report a retryable processing error.
\<close>

definition scrapeCatch :: "int \<Rightarrow> int \<Rightarrow> ScrapeRequest \<Rightarrow> jsError \<Rightarrow> ScrapeFailure" where
  "scrapeCatch maxRetries now request error =
     (case handle (Some error) None of
        Inr errorHandler \<Rightarrow>
          createFailure maxRetries now request (her_errorMessage errorHandler)
            (her_canRetry errorHandler) (her_httpStatus errorHandler)
      | Inl e \<Rightarrow>
          createFailure maxRetries now request (''Processing error: '' @ exnMessage e) True None)"

text \<open>
  \<open>scrapeUrl\<close> after the started notification, with the outcome of the
  navigation given; \<open>elapsed\<close> is the response time measured.
\<close>

definition scrapeUrl ::
  "int \<Rightarrow> int \<Rightarrow> int \<Rightarrow> ScrapeRequest \<Rightarrow> navigation \<Rightarrow> ScrapeFailure + ScrapeResult" where
  "scrapeUrl maxRetries now elapsed request nav =
     (case nav of
        Throws error \<Rightarrow> Inl (scrapeCatch maxRetries now request error)
      | NoResponse \<Rightarrow>
          Inl (scrapeCatch maxRetries now request
                 \<lparr>err_name = ''Error'', err_message = Some ''No response received'',
                  err_status = Undefined, err_code = Undefined\<rparr>)
      | Response page \<Rightarrow>
          if 400 \<le> page_status page then
            (case handle None (Some (page_status page)) of
               Inl e \<Rightarrow> Inl (scrapeCatch maxRetries now request (thrown e))
             | Inr errorHandler \<Rightarrow>
                 Inl (createFailure maxRetries now request (her_errorMessage errorHandler)
                        (her_canRetry errorHandler) (Some (page_status page))))
          else
            Inr \<lparr>res_id = req_id request, res_url = req_url request, res_success = True,
                 res_content = Some (page_content page),
                 res_contentType =
                   Some (messageOr (page_contentTypeHeader page) ''text/html''),
                 res_httpStatus = Some (page_status page),
                 res_errorMessage = None,
                 res_finalUrl = Some (page_url page),
                 res_responseTime = elapsed,
                 res_contentLength = page_byteLength page,
                 res_contentHash = Some (page_sha256 page),
                 res_userAgent = userAgentString,
                 res_redirectChain = Some (page_redirectChain page),
                 res_scrapedAt = now\<rparr>)"

definition startedNotification :: "int \<Rightarrow> ScrapeRequest \<Rightarrow> ScrapeStarted" where
  "startedNotification now request =
     \<lparr>st_id = req_id request, st_url = req_url request, st_startedAt = now,
      st_userAgent = userAgentString\<rparr>"


section \<open>The document store\<close>

datatype FetchStatus = PENDING | PROCESSING | SUCCESS | FAILED | ARCHIVED

definition statusName :: "FetchStatus \<Rightarrow> string" where
  "statusName st =
     (case st of PENDING \<Rightarrow> ''PENDING'' | PROCESSING \<Rightarrow> ''PROCESSING'' | SUCCESS \<Rightarrow> ''SUCCESS''
      | FAILED \<Rightarrow> ''FAILED'' | ARCHIVED \<Rightarrow> ''ARCHIVED'')"

text \<open>
  A document of the collection.  An optional field is \<open>None\<close> when the document
  does not have it or has it as \<open>null\<close>; \<open>oid\<close> is the \<open>_id\<close> (an opaque
  identifier, here a number), dates are milliseconds.
\<close>

record UrlFetchRequest =
  oid :: nat
  url :: string
  status :: FetchStatus
  content :: "string option"
  contentType :: "string option"
  httpStatus :: "int option"
  errorMessage :: "string option"
  finalUrl :: "string option"
  responseTime :: "int option"
  contentLength :: "int option"
  contentHash :: "string option"
  userAgent :: "string option"
  redirectChain :: "string list"
  retryCount :: int
  fetchedAt :: "int option"
  lastScrapedAt :: "int option"
  createdAt :: "int option"
  updatedAt :: "int option"

text \<open>
  An update object, \<open>Partial<UrlFetchRequest>\<close>: a key is absent, or present with
  the value \<open>undefined\<close>, \<open>null\<close> or a value.  \<open>findByIdAndUpdate\<close> (Mongoose 6 and
  later) removes the keys whose value is \<open>undefined\<close> before it sends the
  update, so such a key leaves the field as it was; \<open>null\<close> clears the field.
\<close>

datatype 'a upd = Absent | Undef | Null | Val 'a

definition ofOption :: "'a option \<Rightarrow> 'a upd" where
  "ofOption v = (case v of None \<Rightarrow> Undef | Some x \<Rightarrow> Val x)"

definition setOptional :: "'a upd \<Rightarrow> 'a option \<Rightarrow> 'a option" where
  "setOptional u old = (case u of Absent \<Rightarrow> old | Undef \<Rightarrow> old | Null \<Rightarrow> None | Val v \<Rightarrow> Some v)"

definition setRequired :: "'a upd \<Rightarrow> 'a \<Rightarrow> 'a" where
  "setRequired u old = (case u of Val v \<Rightarrow> v | _ \<Rightarrow> old)"

record Update =
  u_status :: "FetchStatus upd"
  u_content :: "string upd"
  u_contentType :: "string upd"
  u_httpStatus :: "int upd"
  u_errorMessage :: "string upd"
  u_finalUrl :: "string upd"
  u_responseTime :: "int upd"
  u_contentLength :: "int upd"
  u_contentHash :: "string upd"
  u_userAgent :: "string upd"
  u_redirectChain :: "string list upd"
  u_retryCount :: "int upd"
  u_fetchedAt :: "int upd"
  u_lastScrapedAt :: "int upd"

definition noUpdate :: Update where
  "noUpdate =
     \<lparr>u_status = Absent, u_content = Absent, u_contentType = Absent, u_httpStatus = Absent,
      u_errorMessage = Absent, u_finalUrl = Absent, u_responseTime = Absent,
      u_contentLength = Absent, u_contentHash = Absent, u_userAgent = Absent,
      u_redirectChain = Absent, u_retryCount = Absent, u_fetchedAt = Absent,
      u_lastScrapedAt = Absent\<rparr>"

definition applyUpdate :: "int \<Rightarrow> Update \<Rightarrow> UrlFetchRequest \<Rightarrow> UrlFetchRequest" where
  "applyUpdate now data d =
     d\<lparr>status := setRequired (u_status data) (status d),
       content := setOptional (u_content data) (content d),
       contentType := setOptional (u_contentType data) (contentType d),
       httpStatus := setOptional (u_httpStatus data) (httpStatus d),
       errorMessage := setOptional (u_errorMessage data) (errorMessage d),
       finalUrl := setOptional (u_finalUrl data) (finalUrl d),
       responseTime := setOptional (u_responseTime data) (responseTime d),
       contentLength := setOptional (u_contentLength data) (contentLength d),
       contentHash := setOptional (u_contentHash data) (contentHash d),
       userAgent := setOptional (u_userAgent data) (userAgent d),
       redirectChain := setRequired (u_redirectChain data) (redirectChain d),
       retryCount := setRequired (u_retryCount data) (retryCount d),
       fetchedAt := setOptional (u_fetchedAt data) (fetchedAt d),
       lastScrapedAt := setOptional (u_lastScrapedAt data) (lastScrapedAt d),
       updatedAt := Some now\<rparr>"

text \<open>
  The state of the control plane: the collection in insertion order, the next
  identifier, the messages published to \<open>scrape.requests\<close>, and the state of the
  channel (\<open>Some m\<close>: publishing throws an error with message \<open>m\<close>).  The store
  itself is taken to answer every call.
\<close>

record state =
  docs :: "UrlFetchRequest list"
  nextId :: nat
  requests :: "ScrapeRequest list"
  channelError :: "string option"

definition findById :: "nat \<Rightarrow> state \<Rightarrow> UrlFetchRequest option" where
  "findById i s = find (\<lambda>d. oid d = i) (docs s)"

text \<open>\<open>repository.update\<close>: the updated document (\<open>new: true\<close>), or \<open>null\<close>.\<close>

definition update :: "int \<Rightarrow> nat \<Rightarrow> Update \<Rightarrow> state \<Rightarrow> UrlFetchRequest option \<times> state" where
  "update now i data s =
     (map_option (applyUpdate now data) (findById i s),
      s\<lparr>docs := map (\<lambda>d. if oid d = i then applyUpdate now data d else d) (docs s)\<rparr>)"

text \<open>\<open>repository.create({url, status, retryCount})\<close>, with the schema's defaults.\<close>

definition create :: "int \<Rightarrow> string \<Rightarrow> FetchStatus \<Rightarrow> int \<Rightarrow> state \<Rightarrow> UrlFetchRequest \<times> state" where
  "create now u st rc s =
     (let d = \<lparr>oid = nextId s, url = u, status = st, content = None, contentType = None,
                httpStatus = None, errorMessage = None, finalUrl = None, responseTime = None,
                contentLength = None, contentHash = None, userAgent = None,
                redirectChain = [], retryCount = rc, fetchedAt = None, lastScrapedAt = None,
                createdAt = Some now, updatedAt = Some now\<rparr>
      in (d, s\<lparr>docs := docs s @ [d], nextId := Suc (nextId s)\<rparr>))"

definition publish :: "ScrapeRequest \<Rightarrow> state \<Rightarrow> string + state" where
  "publish m s =
     (case channelError s of
        Some e \<Rightarrow> Inl e
      | None \<Rightarrow> Inr (s\<lparr>requests := requests s @ [m]\<rparr>))"

text \<open>
  \<open>getRecentByUrl\<close>: the filter of the query, then \<open>findOne\<close> with
  \<open>sort({createdAt: -1})\<close>: a matching document with the greatest \<open>createdAt\<close>
  (the first such in the collection; a missing date sorts below every date).
\<close>

definition notBefore :: "int option \<Rightarrow> int \<Rightarrow> bool" where
  "notBefore t cutoff = (case t of None \<Rightarrow> False | Some x \<Rightarrow> cutoff \<le> x)"

definition urlVariations :: "string \<Rightarrow> string list" where
  "urlVariations u =
     [u, getCanonicalUrl u, normalize u, ''https://'' @ normalize u, ''http://'' @ normalize u]"

definition recentMatch :: "string \<Rightarrow> int \<Rightarrow> UrlFetchRequest \<Rightarrow> bool" where
  "recentMatch u cutoff d =
     ((url d \<in> set (urlVariations u) \<and>
        ((notBefore (fetchedAt d) cutoff \<and> status d = SUCCESS) \<or>
         (notBefore (createdAt d) cutoff \<and> (status d = PENDING \<or> status d = PROCESSING)))) \<or>
      (list_ex (\<lambda>r. r \<in> set (urlVariations u)) (redirectChain d) \<and>
        notBefore (fetchedAt d) cutoff \<and> status d = SUCCESS))"

definition createdLess :: "UrlFetchRequest \<Rightarrow> UrlFetchRequest \<Rightarrow> bool" where
  "createdLess a b =
     (case createdAt b of
        None \<Rightarrow> False
      | Some y \<Rightarrow> (case createdAt a of None \<Rightarrow> True | Some x \<Rightarrow> x < y))"

fun newest :: "UrlFetchRequest list \<Rightarrow> UrlFetchRequest option" where
  "newest [] = None"
| "newest (d # ds) =
     (case newest ds of
        None \<Rightarrow> Some d
      | Some e \<Rightarrow> if createdLess d e then Some e else Some d)"

definition getRecentByUrl :: "int \<Rightarrow> string \<Rightarrow> int \<Rightarrow> state \<Rightarrow> UrlFetchRequest option" where
  "getRecentByUrl now u minutesAgo s =
     newest (filter (recentMatch u (now - minutesAgo * 60 * 1000)) (docs s))"


section \<open>UrlContentService (the control plane)\<close>

record config =
  scrapeInterval :: int
  maxRetries :: int

record SkippedUrl =
  sk_url :: string
  sk_reason :: string
  sk_lastScrapedAt :: "int option"
  sk_nextAvailableAt :: "int option"

record SubmitUrlsResponse =
  submitted :: "string list"
  skipped :: "SkippedUrl list"
  queued :: "nat list"

text \<open>The arrow of the redirect message, byte for byte as the source file has it.\<close>

definition redirectArrow :: string where
  "redirectArrow = [CHR 0xC3, CHR 0xA2, CHR 0xE2, CHR 0x80, CHR 0xA0, CHR 0xE2, CHR 0x80, CHR 0x99]"

definition skipReason :: "int \<Rightarrow> string \<Rightarrow> UrlFetchRequest \<Rightarrow> string" where
  "skipReason interval u recentRequest =
     (if status recentRequest = SUCCESS \<and> fetchedAt recentRequest \<noteq> None then
        (if url recentRequest = getCanonicalUrl u \<or> areEquivalent (url recentRequest) u
         then ''Successfully scraped within '' @ numToString interval @ '' minutes''
         else ''Already scraped via redirect ('' @ url recentRequest @ '' '' @ redirectArrow @
              '' redirects to this URL)'')
      else if status recentRequest = PENDING \<or> status recentRequest = PROCESSING then
        ''Already queued for scraping (status: '' @ statusName (status recentRequest) @ '')''
      else ''Recent request exists with status: '' @ statusName (status recentRequest))"

definition skipEntry :: "int \<Rightarrow> string \<Rightarrow> UrlFetchRequest \<Rightarrow> SkippedUrl" where
  "skipEntry interval u recentRequest =
     \<lparr>sk_url = u,
      sk_reason = skipReason interval u recentRequest,
      sk_lastScrapedAt =
        (case fetchedAt recentRequest of None \<Rightarrow> createdAt recentRequest | Some t \<Rightarrow> Some t),
      sk_nextAvailableAt =
        (if status recentRequest = SUCCESS
         then map_option (\<lambda>t. t + interval * 60 * 1000) (fetchedAt recentRequest)
         else None)\<rparr>"

text \<open>
  One turn of the loop of \<open>submitUrls\<close>.  A publish that throws is caught by the
  loop's \<open>catch\<close>: the record is already created, the URL is reported as skipped.
\<close>

definition submitUrl ::
  "config \<Rightarrow> int \<Rightarrow> state \<times> SubmitUrlsResponse \<Rightarrow> string \<Rightarrow> state \<times> SubmitUrlsResponse" where
  "submitUrl cfg now acc u =
     (let s = fst acc; r = snd acc; canonicalUrl = getCanonicalUrl u
      in case getRecentByUrl now u (scrapeInterval cfg) s of
           Some recentRequest \<Rightarrow>
             (s, r\<lparr>skipped := skipped r @ [skipEntry (scrapeInterval cfg) u recentRequest]\<rparr>)
         | None \<Rightarrow>
             (let c = create now canonicalUrl PENDING 0 s;
                  scrapeRequest = \<lparr>req_id = oid (fst c), req_url = canonicalUrl,
                                   req_retryCount = Some 0, req_priority = Some 1\<rparr>
              in case publish scrapeRequest (snd c) of
                   Inl e \<Rightarrow>
                     (snd c,
                      r\<lparr>skipped := skipped r @
                          [\<lparr>sk_url = u, sk_reason = ''Processing error: '' @ e,
                            sk_lastScrapedAt = None, sk_nextAvailableAt = None\<rparr>]\<rparr>)
                 | Inr s' \<Rightarrow>
                     (s', r\<lparr>submitted := submitted r @ [u],
                            queued := queued r @ [oid (fst c)]\<rparr>)))"

definition submitUrls ::
  "config \<Rightarrow> int \<Rightarrow> string list \<Rightarrow> state \<Rightarrow> state \<times> SubmitUrlsResponse" where
  "submitUrls cfg now urls s =
     foldl (submitUrl cfg now) (s, \<lparr>submitted = [], skipped = [], queued = []\<rparr>) urls"

definition handleScrapeStarted :: "int \<Rightarrow> ScrapeStarted \<Rightarrow> state \<Rightarrow> state" where
  "handleScrapeStarted now started s =
     snd (update now (st_id started)
            (noUpdate\<lparr>u_status := Val PROCESSING,
                      u_userAgent := Val (st_userAgent started),
                      u_errorMessage := Undef\<rparr>) s)"

definition handleScrapeResult :: "int \<Rightarrow> ScrapeResult \<Rightarrow> state \<Rightarrow> state" where
  "handleScrapeResult now result s =
     (let updateData =
            noUpdate\<lparr>u_status := Val (if res_success result then SUCCESS else FAILED),
                     u_fetchedAt := Val (res_scrapedAt result),
                     u_lastScrapedAt := Val (res_scrapedAt result),
                     u_finalUrl := ofOption (res_finalUrl result),
                     u_responseTime := Val (res_responseTime result),
                     u_contentLength := Val (res_contentLength result),
                     u_contentHash := ofOption (res_contentHash result),
                     u_userAgent := Val (res_userAgent result),
                     u_redirectChain :=
                       Val (case res_redirectChain result of None \<Rightarrow> [] | Some c \<Rightarrow> c)\<rparr>;
          updateData =
            (if res_success result then
               updateData\<lparr>u_content := ofOption (res_content result),
                          u_contentType := ofOption (res_contentType result),
                          u_httpStatus := ofOption (res_httpStatus result),
                          u_errorMessage := Null\<rparr>
             else
               updateData\<lparr>u_errorMessage := ofOption (res_errorMessage result),
                          u_httpStatus := ofOption (res_httpStatus result),
                          u_content := Null,
                          u_contentType := Null,
                          u_contentHash := Null\<rparr>)
      in snd (update now (res_id result) updateData s))"

definition retryMessage :: "int \<Rightarrow> ScrapeFailure \<Rightarrow> string" where
  "retryMessage cap failure =
     ''Retry '' @ numToString (fail_retryCount failure + 1) @ ''/'' @ numToString cap @
     '': '' @ fail_errorMessage failure"

definition failureReason :: "int \<Rightarrow> ScrapeFailure \<Rightarrow> string" where
  "failureReason cap failure =
     (if fail_canRetry failure then ''Maximum retries ('' @ numToString cap @ '') exceeded''
      else ''Error is not retryable'')"

definition handleScrapeFailure :: "config \<Rightarrow> int \<Rightarrow> ScrapeFailure \<Rightarrow> state \<Rightarrow> state" where
  "handleScrapeFailure cfg now failure s =
     (if fail_canRetry failure \<and> fail_retryCount failure < maxRetries cfg then
        (let r = update now (fail_id failure)
                   (noUpdate\<lparr>u_retryCount := Val (fail_retryCount failure + 1),
                             u_status := Val PENDING,
                             u_errorMessage := Val (retryMessage (maxRetries cfg) failure),
                             u_content := Undef,
                             u_contentType := Undef,
                             u_contentHash := Undef,
                             u_fetchedAt := Undef\<rparr>) s
         in case fst r of
              None \<Rightarrow> snd r
            | Some request \<Rightarrow>
                (case publish \<lparr>req_id = oid request, req_url = fail_url failure,
                               req_retryCount = Some (fail_retryCount failure + 1),
                               req_priority = Some 2\<rparr> (snd r) of
                   Inl e \<Rightarrow> snd r
                 | Inr s' \<Rightarrow> s'))
      else
        snd (update now (fail_id failure)
               (noUpdate\<lparr>u_status := Val FAILED,
                         u_errorMessage :=
                           Val (failureReason (maxRetries cfg) failure @ '': '' @
                                fail_errorMessage failure),
                         u_httpStatus := ofOption (fail_httpStatus failure),
                         u_content := Undef,
                         u_contentType := Undef,
                         u_contentHash := Undef\<rparr>) s))"

text \<open>The operations of the control plane, each with the clock at its call.\<close>

datatype operation =
  Submit int "string list"
| Started int ScrapeStarted
| Result int ScrapeResult
| Failure int ScrapeFailure

definition step :: "config \<Rightarrow> state \<Rightarrow> operation \<Rightarrow> state" where
  "step cfg s op =
     (case op of
        Submit now urls \<Rightarrow> fst (submitUrls cfg now urls s)
      | Started now m \<Rightarrow> handleScrapeStarted now m s
      | Result now m \<Rightarrow> handleScrapeResult now m s
      | Failure now m \<Rightarrow> handleScrapeFailure cfg now m s)"

definition run :: "config \<Rightarrow> operation list \<Rightarrow> state \<Rightarrow> state" where
  "run cfg ops s = foldl (step cfg) s ops"

definition emptyState :: state where
  "emptyState = \<lparr>docs = [], nextId = 0, requests = [], channelError = None\<rparr>"

text \<open>
  One attempt of the pipeline: the worker takes the oldest request, reports that
  it started, scrapes, and reports the result or the failure; the control plane
  handles both messages.  \<open>workerMax\<close> is the worker's \<open>MAX_RETRIES\<close>.
\<close>

definition attempt :: "config \<Rightarrow> int \<Rightarrow> int \<Rightarrow> state \<Rightarrow> navigation \<Rightarrow> state" where
  "attempt cfg workerMax now s nav =
     (case requests s of
        [] \<Rightarrow> s
      | request # rest \<Rightarrow>
          (let s1 = handleScrapeStarted now (startedNotification now request)
                      (s\<lparr>requests := rest\<rparr>)
           in case scrapeUrl workerMax now 0 request nav of
                Inl failure \<Rightarrow> handleScrapeFailure cfg now failure s1
              | Inr result \<Rightarrow> handleScrapeResult now result s1))"

definition attempts :: "config \<Rightarrow> int \<Rightarrow> int \<Rightarrow> navigation list \<Rightarrow> state \<Rightarrow> state" where
  "attempts cfg workerMax now navs s = foldl (attempt cfg workerMax now) s navs"

section \<open>Invariants and the scenarios of the specification\<close>

definition retryBounded :: "config \<Rightarrow> state \<Rightarrow> bool" where
  "retryBounded cfg s = list_all (\<lambda>d. retryCount d \<le> maxRetries cfg) (docs s)"

definition defaultConfig :: config where
  "defaultConfig = \<lparr>scrapeInterval = 60, maxRetries = 3\<rparr>"

definition connectionRefused :: navigation where
  "connectionRefused =
     Throws \<lparr>err_name = ''Error'',
             err_message = Some ''net::ERR_CONNECTION_REFUSED at https://example.com'',
             err_status = Undefined, err_code = Undefined\<rparr>"

definition responseWithStatus :: "int \<Rightarrow> navigation" where
  "responseWithStatus n =
     Response \<lparr>page_status = n, page_url = ''https://example.com/'', page_redirectChain = [],
               page_contentTypeHeader = None, page_content = ''<html>Service Unavailable</html>'',
               page_byteLength = 32, page_sha256 = ''c0ffee''\<rparr>"

text \<open>One URL submitted to the empty system.\<close>

definition submittedState :: state where
  "submittedState = fst (submitUrls defaultConfig 0 [''https://example.com''] emptyState)"

text \<open>The same after a first attempt that was refused: the record waits for its retry.\<close>

definition retryingState :: state where
  "retryingState = attempt defaultConfig 3 1 submittedState connectionRefused"

definition okResult :: ScrapeResult where
  "okResult =
     \<lparr>res_id = 0, res_url = ''https://example.com'', res_success = True,
      res_content = Some ''<html>OK</html>'', res_contentType = Some ''text/html'',
      res_httpStatus = Some 200, res_errorMessage = None,
      res_finalUrl = Some ''https://example.com/'', res_responseTime = 120,
      res_contentLength = 15, res_contentHash = Some ''c0ffee'',
      res_userAgent = userAgentString, res_redirectChain = Some [], res_scrapedAt = 5\<rparr>"

text \<open>The submitted URL scraped with success.\<close>

definition scrapedState :: state where
  "scrapedState = handleScrapeResult 5 okResult submittedState"

definition lateFailure :: ScrapeFailure where
  "lateFailure =
     \<lparr>fail_id = 0, fail_url = ''https://example.com'', fail_errorMessage = ''Connection refused'',
      fail_retryCount = 0, fail_maxRetries = 3, fail_canRetry = True,
      fail_httpStatus = Some 503, fail_failedAt = 6\<rparr>"

text \<open>
  Scenario 2 of the specification: \<open>ynet.co.il\<close> is submitted and scraped through
  a redirect to \<open>www.ynet.co.il\<close>.
\<close>

definition ynetState :: state where
  "ynetState =
     handleScrapeResult 5
       \<lparr>res_id = 0, res_url = ''https://ynet.co.il'', res_success = True,
        res_content = Some ''<html>ynet</html>'', res_contentType = Some ''text/html'',
        res_httpStatus = Some 200, res_errorMessage = None,
        res_finalUrl = Some ''https://www.ynet.co.il/'', res_responseTime = 120,
        res_contentLength = 17, res_contentHash = Some ''c0ffee'',
        res_userAgent = userAgentString,
        res_redirectChain = Some [''https://ynet.co.il'', ''https://www.ynet.co.il''],
        res_scrapedAt = 5\<rparr>
       (fst (submitUrls defaultConfig 0 [''ynet.co.il''] emptyState))"

text \<open>A short link scraped through a redirect to another host.\<close>

definition shortLinkState :: state where
  "shortLinkState =
     handleScrapeResult 5
       \<lparr>res_id = 0, res_url = ''https://short.test/abc'', res_success = True,
        res_content = Some ''<html>target</html>'', res_contentType = Some ''text/html'',
        res_httpStatus = Some 200, res_errorMessage = None,
        res_finalUrl = Some ''https://target.test/'', res_responseTime = 120,
        res_contentLength = 19, res_contentHash = Some ''c0ffee'',
        res_userAgent = userAgentString,
        res_redirectChain = Some [''https://short.test/abc'', ''https://target.test''],
        res_scrapedAt = 5\<rparr>
       (fst (submitUrls defaultConfig 0 [''short.test/abc''] emptyState))"

definition noResponse :: SubmitUrlsResponse where
  "noResponse = \<lparr>submitted = [], skipped = [], queued = []\<rparr>"


subsection \<open>Canonical forms\<close>

text \<open>
  What the parser writes: the characters of a host, of a path segment, and the
  path without its trailing slash, as \<open>normalize\<close> rebuilds it.
\<close>

definition visible :: "char \<Rightarrow> bool" where
  "visible c = (32 < charCode c)"

definition pathSafe :: "char \<Rightarrow> bool" where
  "pathSafe c = (\<not> pathSet c \<and> \<not> isSlash c)"

definition goodSegment :: "string \<Rightarrow> bool" where
  "goodSegment seg = (list_all pathSafe seg \<and> \<not> isSingleDot seg \<and> \<not> isDoubleDot seg)"

definition sansSlash :: "string \<Rightarrow> string" where
  "sansSlash pn =
     (if pn = ''/'' then []
      else if endsWith pn ''/'' \<and> 1 < length pn then butlast pn
      else pn)"

definition okHostChar :: "char \<Rightarrow> bool" where
  "okHostChar c = (charCode c < 128 \<and> \<not> forbiddenDomainCodePoint c \<and> toLowerChar c = c)"


section \<open>The URL normalizer\<close>

text \<open>
  C10.  Canonicalization always returns, and what it returns starts with
  \<open>https://\<close>: \<open>normalize\<close> is a total function, whose value where the URL does
  not parse is that of the \<open>catch\<close> block, and \<open>getCanonicalUrl\<close> writes
  \<open>https://\<close> before it.
\<close>

theorem getCanonicalUrl_https_prefix:
  "startsWith (getCanonicalUrl u) ''https://'' \<and>
   getCanonicalUrl u = ''https://'' @ normalize u \<and>
   (case URL_parse (if hasProtocol (trim u) then trim u else ''https://'' @ trim u) of
      None \<Rightarrow> normalize u = fallback u
    | Some urlObj \<Rightarrow> normalize u = rebuild urlObj)"
  by (simp add: getCanonicalUrl_def startsWith_def normalize_def Let_def split: option.split)

theorem getCanonicalUrl_https_prefix_witness:
  "startsWith (getCanonicalUrl ''www.www.a b/C'') ''https://'' \<and>
   getCanonicalUrl ''www.www.a b/C'' = ''https://www.a b/C''"
proof -
  have "URL_parse ''https://www.www.a b/C'' = None"
    by code_simp
  moreover have "fallback ''www.www.a b/C'' = ''www.a b/C''"
    by code_simp
  moreover have "hasProtocol (trim ''www.www.a b/C'') = False" "trim ''www.www.a b/C'' = ''www.www.a b/C''"
    by code_simp+
  ultimately show ?thesis
    using getCanonicalUrl_https_prefix [of "''www.www.a b/C''"]
    by (simp add: startsWith_def)
qed

text \<open>
  C2.  The first two of the three URLs have the canonical form
  \<open>https://ynet.co.il\<close>.  The third, \<open>HTTP://ynet.co.il\<close>, does not: the test for a
  scheme is case-sensitive, so \<open>https://\<close> is written before the upper-case
  scheme, and the URL parses with the host \<open>http\<close> and the path \<open>//ynet.co.il\<close>.
\<close>

theorem canonical_upper_case_scheme:
  "getCanonicalUrl ''ynet.co.il'' = ''https://ynet.co.il'' \<and>
   getCanonicalUrl ''https://www.ynet.co.il/'' = ''https://ynet.co.il'' \<and>
   getCanonicalUrl ''HTTP://ynet.co.il'' = ''https://http//ynet.co.il''"
  by code_simp

text \<open>
  C3, as stated, fails: one leading \<open>www.\<close> is stripped at each pass, so a host
  with two of them is canonicalized in two steps.
\<close>

theorem canonical_not_idempotent:
  "getCanonicalUrl ''www.www.example.com'' = ''https://www.example.com'' \<and>
   getCanonicalUrl (getCanonicalUrl ''www.www.example.com'') = ''https://example.com''"
  by code_simp

text \<open>
  So do two trailing slashes, a host that is \<open>www.\<close> alone, and the port 443
  given with \<open>http\<close>: each takes two passes.
\<close>

lemma canonical_two_passes:
  "getCanonicalUrl ''a.com/b//'' = ''https://a.com/b/'' \<and>
   getCanonicalUrl ''https://a.com/b/'' = ''https://a.com/b'' \<and>
   getCanonicalUrl ''www./b'' = ''https:///b'' \<and>
   getCanonicalUrl ''https:///b'' = ''https://b''"
  by code_simp

lemma canonical_two_passes_port:
  "getCanonicalUrl ''http://a.com:443'' = ''https://a.com:443'' \<and>
   getCanonicalUrl ''https://a.com:443'' = ''https://a.com''"
  by code_simp


subsection \<open>Idempotence on clean canonical forms\<close>

lemma charCode_lits [simp]:
  "charCode (CHR ''/'') = 47" "charCode (CHR '':'') = 58" "charCode (CHR ''?'') = 63"
  "charCode (CHR ''#'') = 35" "charCode (CHR ''.'') = 46" "charCode (CHR ''%'') = 37"
  "charCode (CHR ''h'') = 104" "charCode (CHR ''t'') = 116" "charCode (CHR ''p'') = 112"
  "charCode (CHR ''s'') = 115" "charCode (CHR ''w'') = 119"
  by (simp_all add: charCode_def)

lemma trim_visible:
  assumes "list_all visible s"
  shows "trim s = s"
proof -
  have a: "dropWhile isWhiteSpace s = s"
    using assms by (cases s) (auto simp: visible_def isWhiteSpace_def)
  have "list_all visible (rev s)"
    using assms by (simp add: list_all_iff)
  then have b: "dropWhile isWhiteSpace (rev s) = rev s"
    by (cases "rev s") (auto simp: visible_def isWhiteSpace_def)
  show ?thesis
    by (simp add: trim_def a b)
qed

lemma preprocess_visible:
  assumes "list_all visible s"
  shows "preprocess s = s"
proof -
  have a: "dropWhile isC0OrSpace s = s"
    using assms by (cases s) (auto simp: visible_def isC0OrSpace_def)
  have "list_all visible (rev s)"
    using assms by (simp add: list_all_iff)
  then have b: "dropWhile isC0OrSpace (rev s) = rev s"
    by (cases "rev s") (auto simp: visible_def isC0OrSpace_def)
  have c: "filter (\<lambda>c. \<not> isTabOrNewline c) s = s"
    using assms by (auto simp: filter_id_conv list_all_iff visible_def isTabOrNewline_def)
  show ?thesis
    by (simp add: preprocess_def a b c)
qed

lemma low_forbidden: "charCode c \<le> 32 \<Longrightarrow> forbiddenDomainCodePoint c"
  by (cases "charCode c = 32")
     (simp_all add: forbiddenDomainCodePoint_def forbiddenHostCodePoint_def)

lemma okHostChar_visible: "okHostChar c \<Longrightarrow> visible c"
  using low_forbidden [of c] by (cases "charCode c \<le> 32") (simp_all add: okHostChar_def visible_def)

lemma toLowerCase_ok: "list_all okHostChar h \<Longrightarrow> toLowerCase h = h"
  by (induction h) (auto simp: toLowerCase_def okHostChar_def)

lemma percentDecode_no_percent:
  "CHR ''%'' \<notin> set s \<Longrightarrow> percentDecode s = s"
  by (induction s rule: percentDecode.induct) (auto split: option.splits)

lemma okHostChar_not_percent: "okHostChar c \<Longrightarrow> c \<noteq> CHR ''%''"
  by (auto simp: okHostChar_def forbiddenDomainCodePoint_def)

lemma hostParse_ok:
  assumes "h \<noteq> []" "list_all okHostChar h" "\<not> endsInANumber h"
  shows "hostParse h = Some h"
proof -
  have "CHR ''%'' \<notin> set h"
    using assms(2) okHostChar_not_percent by (auto simp: list_all_iff)
  then have d: "percentDecode h = h"
    by (rule percentDecode_no_percent)
  have b: "\<not> startsWith h ''[''"
    using assms(1,2)
    by (cases h) (auto simp: startsWith_def okHostChar_def forbiddenDomainCodePoint_def
        forbiddenHostCodePoint_def charCode_def)
  have a: "domainToASCII h = Some h"
    using assms(2) toLowerCase_ok [OF assms(2)]
    by (auto simp: domainToASCII_def list_all_iff okHostChar_def)
  have f: "\<not> list_ex forbiddenDomainCodePoint h"
    using assms(2) by (auto simp: list_ex_iff list_all_iff okHostChar_def)
  show ?thesis
    using assms(1,3) by (simp add: hostParse_def d b a f)
qed


subsection \<open>Decimal numbers\<close>

lemma charCode_char_of: "(n::nat) < 256 \<Longrightarrow> charCode (char_of n) = n"
  by (simp add: charCode_def)

lemma digitVal_digit: "(k::nat) < 10 \<Longrightarrow> digitVal (char_of (48 + k)) = Some k"
  by (simp add: digitVal_def charCode_char_of)

lemma isDigit_digit: "(k::nat) < 10 \<Longrightarrow> isDigit (char_of (48 + k))"
  by (simp add: isDigit_def charCode_char_of)

lemma digits_isDigit: "list_all isDigit (digits n)"
proof (induction n rule: digits.induct)
  case (1 n)
  show ?case
  proof (cases "n < 10")
    case True
    then show ?thesis
      by (subst digits.simps) (simp add: isDigit_digit)
  next
    case False
    with 1 show ?thesis
      by (subst digits.simps) (simp add: isDigit_digit)
  qed
qed

lemma digits_nonempty: "digits n \<noteq> []"
  by (subst digits.simps) simp

lemma parseRadix_snoc:
  "parseRadix R acc (xs @ [c]) =
     (case parseRadix R acc xs of
        None \<Rightarrow> None
      | Some v \<Rightarrow> (case digitVal c of
                     None \<Rightarrow> None
                   | Some d \<Rightarrow> if d < R then Some (v * R + d) else None))"
  by (induction xs arbitrary: acc) (auto split: option.splits)

lemma parseRadix_digits: "parseRadix 10 0 (digits n) = Some n"
proof (induction n rule: digits.induct)
  case (1 n)
  show ?case
  proof (cases "n < 10")
    case True
    then show ?thesis
      by (subst digits.simps) (simp add: digitVal_digit)
  next
    case False
    with 1 have "parseRadix 10 0 (digits (n div 10)) = Some (n div 10)"
      by simp
    with False show ?thesis
      by (subst digits.simps) (simp add: parseRadix_snoc digitVal_digit)
  qed
qed

lemma digits_443: "digits 443 = ''443''"
  by code_simp

lemma portParse_result:
  assumes "portParse scheme buf = Some p"
  shows "p = [] \<or> (\<exists>n. p = digits n \<and> n \<le> 65535)"
  using assms
  by (auto simp: portParse_def split: if_splits option.splits)

lemma portParse_digits:
  assumes "n \<le> 65535" and "digits n \<noteq> ''443''"
  shows "portParse ''https'' (digits n) = Some (digits n)"
proof -
  have "n \<noteq> 443"
    using assms(2) digits_443 by auto
  then show ?thesis
    using assms(1)
    by (simp add: portParse_def digits_nonempty digits_isDigit parseRadix_digits defaultPort_def)
qed

subsection \<open>Characters of a host\<close>

lemma isDigit_okHostChar: "isDigit c \<Longrightarrow> okHostChar c"
  by (auto simp: isDigit_def okHostChar_def forbiddenDomainCodePoint_def
        forbiddenHostCodePoint_def toLowerChar_def)

lemma dot_okHostChar: "okHostChar (CHR ''.'')"
  by (simp add: okHostChar_def forbiddenDomainCodePoint_def
        forbiddenHostCodePoint_def toLowerChar_def)

lemma serializeIPv4_ok: "list_all okHostChar (serializeIPv4 n) \<and> serializeIPv4 n \<noteq> []"
proof -
  have "list_all okHostChar (digits k)" for k
    using digits_isDigit [of k] isDigit_okHostChar by (auto simp: list_all_iff)
  then show ?thesis
    by (simp add: serializeIPv4_def dot_okHostChar digits_nonempty)
qed

lemma toLowerChar_code: "charCode c < 128 \<Longrightarrow> charCode (toLowerChar c) < 128"
  by (simp add: toLowerChar_def charCode_char_of)

lemma toLowerChar_idem: "toLowerChar (toLowerChar c) = toLowerChar c"
  by (simp add: toLowerChar_def charCode_char_of)

lemma hostParse_chars:
  assumes "hostParse x = Some a"
  shows "a \<noteq> [] \<and> list_all okHostChar a"
proof (cases "domainToASCII (percentDecode x)")
  case None
  with assms show ?thesis
    by (simp add: hostParse_def split: if_splits)
next
  case (Some d)
  then have d: "d = toLowerCase (percentDecode x)"
    and lt: "list_all (\<lambda>c. charCode c < 128) (percentDecode x)"
    by (auto simp: domainToASCII_def split: if_splits)
  show ?thesis
  proof (cases "endsInANumber d")
    case True
    with assms Some obtain n where "a = serializeIPv4 n"
      by (auto simp: hostParse_def split: if_splits)
    then show ?thesis
      using serializeIPv4_ok by simp
  next
    case False
    with assms Some have a: "a = d" and ne: "d \<noteq> []" and nf: "\<not> list_ex forbiddenDomainCodePoint d"
      by (auto simp: hostParse_def split: if_splits)
    have "okHostChar c" if "c \<in> set d" for c
    proof -
      from that d obtain c0 where c0: "c0 \<in> set (percentDecode x)" "c = toLowerChar c0"
        by (auto simp: toLowerCase_def)
      with lt have "charCode c < 128"
        by (auto simp: list_all_iff toLowerChar_code)
      moreover have "\<not> forbiddenDomainCodePoint c"
        using nf that by (auto simp: list_ex_iff)
      moreover have "toLowerChar c = c"
        using c0 by (simp add: toLowerChar_idem)
      ultimately show ?thesis
        by (simp add: okHostChar_def)
    qed
    then show ?thesis
      using a ne by (simp add: list_all_iff)
  qed
qed

subsection \<open>Splitting the authority\<close>

lemma takeWhile_prefix:
  assumes "\<forall>x \<in> set xs. P x" and "ys = [] \<or> \<not> P (hd ys)"
  shows "takeWhile P (xs @ ys) = xs" and "dropWhile P (xs @ ys) = ys"
  using assms by (induction xs) (auto simp: takeWhile_eq_Nil_iff dropWhile_eq_self_iff)

lemma afterLastAt_none:
  assumes "\<forall>c \<in> set a. charCode c \<noteq> 64"
  shows "afterLastAt a = a"
  using assms by (simp add: afterLastAt_def takeWhile_eq_all_conv [THEN iffD2])

lemma splitHostPort_plain:
  assumes "\<forall>c \<in> set h. charCode c \<noteq> 58 \<and> charCode c \<noteq> 91 \<and> charCode c \<noteq> 93"
  shows "splitHostPort False buf h = (buf @ h, [])"
    and "splitHostPort False buf (h @ CHR '':'' # p) = (buf @ h, p)"
  using assms by (induction h arbitrary: buf) auto

lemma okHostChar_codes:
  assumes "okHostChar c"
  shows "charCode c \<noteq> 58" "charCode c \<noteq> 91" "charCode c \<noteq> 93" "charCode c \<noteq> 64"
    "\<not> isAuthorityEnd c" "\<not> isSlash c"
  using assms
  by (auto simp: okHostChar_def forbiddenDomainCodePoint_def forbiddenHostCodePoint_def
        isAuthorityEnd_def isSlash_def isPathEnd_def)

lemma isDigit_codes:
  assumes "isDigit c"
  shows "charCode c \<noteq> 64" "\<not> isAuthorityEnd c" "visible c"
  using assms by (auto simp: isDigit_def isAuthorityEnd_def isSlash_def isPathEnd_def visible_def)


subsection \<open>Percent-encoding\<close>

lemma charCode_bound: "charCode c < 256"
proof -
  have "charCode c = charCode c mod 256"
    by (simp add: charCode_def)
  also have "\<dots> < 256"
    by simp
  finally show ?thesis .
qed

lemma hexDigit_code:
  assumes "k < 16"
  shows "(48 \<le> charCode (hexDigit k) \<and> charCode (hexDigit k) \<le> 57) \<or>
         (65 \<le> charCode (hexDigit k) \<and> charCode (hexDigit k) \<le> 70)"
  using assms by (simp add: hexDigit_def charCode_char_of)

lemma encoded_codes:
  assumes "c \<in> set (percentEncodeByte x)"
  shows "charCode c = 37 \<or> (48 \<le> charCode c \<and> charCode c \<le> 57) \<or>
         (65 \<le> charCode c \<and> charCode c \<le> 70)"
proof -
  have "charCode x div 16 < 16" "charCode x mod 16 < 16"
    using charCode_bound [of x] by simp_all
  then show ?thesis
    using assms hexDigit_code [of "charCode x div 16"] hexDigit_code [of "charCode x mod 16"]
    by (auto simp: percentEncodeByte_def)
qed

lemma sets_of_code:
  assumes "charCode c = 37 \<or> (48 \<le> charCode c \<and> charCode c \<le> 57) \<or>
           (65 \<le> charCode c \<and> charCode c \<le> 70)"
  shows "\<not> pathSet c" "\<not> specialQuerySet c" "\<not> fragmentSet c" "\<not> isSlash c"
  using assms
  by (auto simp: pathSet_def specialQuerySet_def querySet_def fragmentSet_def c0ControlSet_def
        isSlash_def)

lemma percentEncodeChar_safe:
  assumes "c \<in> set (percentEncodeChar S x)"
  shows "\<not> S c \<or> (\<not> pathSet c \<and> \<not> specialQuerySet c \<and> \<not> fragmentSet c \<and> \<not> isSlash c)"
proof (cases "S x")
  case True
  with assms have "c \<in> set (percentEncodeByte x)"
    by (simp add: percentEncodeChar_def)
  then show ?thesis
    using sets_of_code [OF encoded_codes] by blast
next
  case False
  with assms show ?thesis
    by (simp add: percentEncodeChar_def)
qed

lemma percentEncode_set:
  assumes "S = pathSet \<or> S = specialQuerySet \<or> S = fragmentSet"
    and "c \<in> set (percentEncode S s)"
  shows "\<not> S c"
proof -
  from assms(2) obtain x where "c \<in> set (percentEncodeChar S x)"
    by (auto simp: percentEncode_def)
  from percentEncodeChar_safe [OF this] assms(1) show ?thesis
    by auto
qed

lemma percentEncode_id:
  assumes "\<forall>c \<in> set s. \<not> S c"
  shows "percentEncode S s = s"
  using assms by (induction s) (simp_all add: percentEncode_def percentEncodeChar_def)

subsection \<open>The path\<close>

lemma goodSegment_Nil: "goodSegment []"
  by (simp add: goodSegment_def isSingleDot_def isDoubleDot_def toLowerCase_def)

lemma endSegment_good:
  assumes "list_all goodSegment path" and "list_all pathSafe buf"
  shows "list_all goodSegment (endSegment b buf path)"
proof -
  have bl: "list_all goodSegment (butlast path)"
    using assms(1) by (auto simp: list_all_iff dest: in_set_butlastD)
  have "goodSegment buf" if "\<not> isDoubleDot buf" "\<not> isSingleDot buf"
    using that assms(2) by (simp add: goodSegment_def)
  then show ?thesis
    using assms(1) bl by (simp add: endSegment_def goodSegment_Nil)
qed

lemma percentEncodeChar_pathSafe:
  assumes "\<not> isSlash c" and "x \<in> set (percentEncodeChar pathSet c)"
  shows "pathSafe x"
proof (cases "pathSet c")
  case True
  with assms(2) have "x \<in> set (percentEncodeByte c)"
    by (simp add: percentEncodeChar_def)
  from sets_of_code(1,4) [OF encoded_codes [OF this]] show ?thesis
    by (simp add: pathSafe_def)
next
  case False
  with assms show ?thesis
    by (simp add: percentEncodeChar_def pathSafe_def)
qed

lemma pathState_good:
  assumes "list_all goodSegment path" and "list_all pathSafe buf"
  shows "list_all goodSegment (pathState cs buf path)"
  using assms
proof (induction cs arbitrary: buf path)
  case Nil
  then show ?case
    by (simp add: endSegment_good)
next
  case (Cons c cs)
  show ?case
  proof (cases "isSlash c")
    case True
    have "list_all goodSegment (pathState cs [] (endSegment True buf path))"
      by (rule Cons.IH) (simp_all add: endSegment_good Cons.prems)
    with True show ?thesis
      by simp
  next
    case False
    have "list_all pathSafe (buf @ percentEncodeChar pathSet c)"
      using Cons.prems(2) percentEncodeChar_pathSafe [OF False]
      by (auto simp: list_all_iff)
    then have "list_all goodSegment (pathState cs (buf @ percentEncodeChar pathSet c) path)"
      by (rule Cons.IH [OF Cons.prems(1)])
    with False show ?thesis
      by simp
  qed
qed

lemma endSegment_False_nonempty: "endSegment False buf path \<noteq> []"
  by (simp add: endSegment_def)

lemma pathState_nonempty: "pathState cs buf path \<noteq> []"
  by (induction cs arbitrary: buf path) (simp_all add: endSegment_False_nonempty)

lemma parsePath_good: "list_all goodSegment (parsePath s) \<and> parsePath s \<noteq> []"
  by (simp add: parsePath_def pathState_good pathState_nonempty)

lemma pathState_segment:
  assumes "list_all pathSafe seg"
  shows "pathState (seg @ rest) buf path = pathState rest (buf @ seg) path"
  using assms
  by (induction seg arbitrary: buf) (simp_all add: pathSafe_def percentEncodeChar_def)

lemma serializePath_Cons: "serializePath (s # S) = CHR ''/'' # s @ serializePath S"
  by (simp add: serializePath_def)

lemma slash_isSlash: "isSlash (CHR ''/'')"
  by (simp add: isSlash_def)

lemma pathState_serialized:
  assumes "list_all goodSegment (s # S)"
  shows "pathState (s @ serializePath S) [] path = path @ s # S"
  using assms
proof (induction S arbitrary: s path)
  case Nil
  then show ?case
    using pathState_segment [of s "[]" "[]" path]
    by (simp add: serializePath_def goodSegment_def endSegment_def)
next
  case (Cons s2 S)
  then have "pathState (s2 @ serializePath S) [] (path @ [s]) = (path @ [s]) @ s2 # S"
    by simp
  then show ?case
    using Cons.prems pathState_segment [of s "serializePath (s2 # S)" "[]" path]
    by (simp add: serializePath_Cons slash_isSlash goodSegment_def endSegment_def)
qed

lemma parsePath_serialized:
  assumes "list_all goodSegment P" and "P \<noteq> []"
  shows "parsePath (serializePath P) = P"
proof -
  obtain s S where P: "P = s # S"
    using assms(2) by (cases P) auto
  show ?thesis
    using pathState_serialized [of s S "[]"] assms(1)
    by (simp add: P parsePath_def serializePath_Cons slash_isSlash)
qed

lemma parsePath_Nil: "parsePath [] = [[]]"
  by (simp add: parsePath_def endSegment_def isSingleDot_def isDoubleDot_def toLowerCase_def)


subsection \<open>The trailing slash\<close>

lemma endsWith_slash: "endsWith s ''/'' \<longleftrightarrow> s \<noteq> [] \<and> last s = CHR ''/''"
proof (cases s rule: rev_cases)
  case Nil
  then show ?thesis
    by (simp add: endsWith_def)
next
  case (snoc xs x)
  then show ?thesis
    by (auto simp: endsWith_def)
qed

lemma endsWith_two_slashes: "endsWith (xs @ ''//'') ''//''"
  by (simp add: endsWith_def)

lemma serializePath_snoc: "serializePath (Q @ [l]) = serializePath Q @ CHR ''/'' # l"
  by (simp add: serializePath_def)

lemma serializePath_empty: "serializePath Q = [] \<longleftrightarrow> Q = []"
  by (cases Q) (simp_all add: serializePath_def)

lemma pathSafe_not_slash: "pathSafe c \<Longrightarrow> c \<noteq> CHR ''/''"
  by (auto simp: pathSafe_def isSlash_def)

lemma sansSlash_serializePath:
  assumes "list_all goodSegment P" and "P \<noteq> []"
  shows "sansSlash (serializePath P) = serializePath (if last P = [] then butlast P else P)"
proof -
  obtain Q l where P: "P = Q @ [l]"
    using assms(2) by (cases P rule: rev_cases) auto
  show ?thesis
  proof (cases "l = []")
    case True
    show ?thesis
    proof (cases "Q = []")
      case True
      with \<open>l = []\<close> show ?thesis
        by (simp add: P sansSlash_def serializePath_def)
    next
      case False
      then have "serializePath Q \<noteq> []"
        by (simp add: serializePath_empty)
      then show ?thesis
        using \<open>l = []\<close>
        by (simp add: P sansSlash_def serializePath_snoc endsWith_slash butlast_append)
    qed
  next
    case False
    have "list_all pathSafe l"
      using assms(1) by (simp add: P goodSegment_def)
    then have "last l \<noteq> CHR ''/''"
      using False pathSafe_not_slash [of "last l"] by (auto simp: list_all_iff)
    moreover have "serializePath Q @ CHR ''/'' # l \<noteq> ''/''"
      using False by (auto simp: append_eq_Cons_conv)
    ultimately show ?thesis
      using False by (simp add: P sansSlash_def serializePath_snoc endsWith_slash)
  qed
qed

lemma clean_path:
  assumes "list_all goodSegment P" and "P \<noteq> []"
    and "\<not> endsWith (serializePath P) ''//''"
    and "P' = (if last P = [] then butlast P else P)"
  shows "list_all goodSegment P' \<and> (P' = [] \<or> last P' \<noteq> [])"
proof -
  have g: "list_all goodSegment P'"
    using assms(1,4) by (auto simp: list_all_iff dest: in_set_butlastD)
  have "last P' \<noteq> []" if ne: "P' \<noteq> []"
  proof (cases "last P = []")
    case False
    then show ?thesis
      using assms(4) by simp
  next
    case True
    then have P': "P' = butlast P"
      using assms(4) by simp
    show ?thesis
    proof
      assume e: "last P' = []"
      have "P = butlast P' @ [[], []]"
        using True e ne assms(2) P'
        by (metis append_butlast_last_id append_Cons append_Nil append_assoc)
      then have "serializePath P = serializePath (butlast P') @ ''//''"
        by (simp add: serializePath_def)
      with assms(3) endsWith_two_slashes show False
        by simp
    qed
  qed
  with g show ?thesis
    by blast
qed

lemma reparse_path:
  assumes "list_all goodSegment P'" and "P' = [] \<or> last P' \<noteq> []"
  shows "sansSlash (serializePath (parsePath (serializePath P'))) = serializePath P'"
proof (cases "P' = []")
  case True
  then show ?thesis
    by (simp add: serializePath_def parsePath_Nil sansSlash_def)
next
  case False
  then show ?thesis
    using assms by (simp add: parsePath_serialized sansSlash_serializePath)
qed

subsection \<open>Query and fragment\<close>

lemma tailSearch_form:
  "tailSearch t = [] \<or>
   (\<exists>q. tailSearch t = CHR ''?'' # q \<and> q \<noteq> [] \<and> (\<forall>c \<in> set q. \<not> specialQuerySet c))"
proof -
  have "\<forall>c \<in> set (percentEncode specialQuerySet s). \<not> specialQuerySet c" for s
    using percentEncode_set [of specialQuerySet] by blast
  then show ?thesis
    by (auto simp: tailSearch_def Let_def split: list.splits)
qed

lemma tailHash_form:
  "tailHash t = [] \<or>
   (\<exists>f. tailHash t = CHR ''#'' # f \<and> f \<noteq> [] \<and> (\<forall>c \<in> set f. \<not> fragmentSet c))"
proof -
  have "\<forall>c \<in> set (percentEncode fragmentSet s). \<not> fragmentSet c" for s
    using percentEncode_set [of fragmentSet] by blast
  then show ?thesis
    by (auto simp: tailHash_def Let_def split: list.splits)
qed


lemma hash_isHash: "isHash (CHR ''#'')" "\<not> isHash (CHR ''?'')" "isPathEnd (CHR ''#'')"
  "isPathEnd (CHR ''?'')"
  by (simp_all add: isHash_def isPathEnd_def)

lemma query_char: "\<not> specialQuerySet c \<Longrightarrow> \<not> isHash c \<and> visible c"
  by (cases "charCode c \<le> 32")
     (auto simp: specialQuerySet_def querySet_def c0ControlSet_def isHash_def visible_def)

lemma fragment_char: "\<not> fragmentSet c \<Longrightarrow> visible c"
  by (cases "charCode c \<le> 32")
     (auto simp: fragmentSet_def c0ControlSet_def visible_def)

lemma path_char: "pathSafe c \<Longrightarrow> \<not> isPathEnd c \<and> \<not> isHash c \<and> visible c"
  by (cases "charCode c \<le> 32")
     (auto simp: pathSafe_def pathSet_def querySet_def c0ControlSet_def isPathEnd_def isHash_def
        visible_def)

lemma slash_char: "\<not> isPathEnd (CHR ''/'')" "\<not> isHash (CHR ''/'')" "visible (CHR ''/'')"
  "isAuthorityEnd (CHR ''/'')"
  by (simp_all add: isPathEnd_def isHash_def visible_def isAuthorityEnd_def isSlash_def)

lemma serializePath_chars:
  assumes "list_all goodSegment P" and "c \<in> set (serializePath P)"
  shows "\<not> isPathEnd c \<and> \<not> isHash c \<and> visible c"
proof -
  have "c \<in> set (serializePath Q) \<Longrightarrow> c = CHR ''/'' \<or> (\<exists>seg \<in> set Q. c \<in> set seg)" for Q
    by (induction Q) (auto simp: serializePath_def)
  from this [OF assms(2)] show ?thesis
    using assms(1) path_char slash_char by (auto simp: list_all_iff goodSegment_def)
qed

lemma serializePath_hd:
  "serializePath P = [] \<or> hd (serializePath P) = CHR ''/''"
  by (cases P) (simp_all add: serializePath_def)

text \<open>The tail of a canonical URL, parsed again.\<close>

lemma reparse_tail:
  assumes p: "\<forall>c \<in> set p. \<not> isPathEnd c \<and> \<not> isHash c"
    and sr: "sr = [] \<or> (\<exists>q. sr = CHR ''?'' # q \<and> q \<noteq> [] \<and> (\<forall>c \<in> set q. \<not> specialQuerySet c))"
    and hs: "hs = [] \<or> (\<exists>f. hs = CHR ''#'' # f \<and> f \<noteq> [] \<and> (\<forall>c \<in> set f. \<not> fragmentSet c))"
  shows "tailPathname (p @ sr @ hs) = serializePath (parsePath p)"
    and "tailSearch (p @ sr @ hs) = sr"
    and "tailHash (p @ sr @ hs) = hs"
proof -
  have e: "sr @ hs = [] \<or> \<not> \<not> isPathEnd (hd (sr @ hs))"
    using sr hs by (auto simp: hash_isHash)
  have tk: "takeWhile (\<lambda>c. \<not> isPathEnd c) (p @ sr @ hs) = p"
    and dr: "dropWhile (\<lambda>c. \<not> isPathEnd c) (p @ sr @ hs) = sr @ hs"
    using takeWhile_prefix [of p "\<lambda>c. \<not> isPathEnd c" "sr @ hs"] p e by auto
  show "tailPathname (p @ sr @ hs) = serializePath (parsePath p)"
    by (simp add: tailPathname_def tk)
  have ts: "tailSearch (p @ sr @ hs) =
      (case sr @ hs of
         [] \<Rightarrow> []
       | c # cs \<Rightarrow>
           if isHash c then []
           else (let q = percentEncode specialQuerySet (takeWhile (\<lambda>c. \<not> isHash c) cs)
                 in if q = [] then [] else CHR ''?'' # q))"
    by (simp add: tailSearch_def dr)
  show "tailSearch (p @ sr @ hs) = sr"
  proof (cases "sr = []")
    case True
    then show ?thesis
      using ts hs by (auto simp: hash_isHash)
  next
    case False
    with sr obtain q where q: "sr = CHR ''?'' # q" "q \<noteq> []" "\<forall>c \<in> set q. \<not> specialQuerySet c"
      by auto
    have "hs = [] \<or> \<not> \<not> isHash (hd hs)"
      using hs by (auto simp: hash_isHash)
    moreover have "\<forall>c \<in> set q. \<not> isHash c"
      using q(3) query_char by blast
    ultimately have "takeWhile (\<lambda>c. \<not> isHash c) (q @ hs) = q"
      using takeWhile_prefix(1) [of q "\<lambda>c. \<not> isHash c" hs] by auto
    then show ?thesis
      using ts q by (simp add: hash_isHash percentEncode_id)
  qed
  show "tailHash (p @ sr @ hs) = hs"
  proof -
    have "\<forall>c \<in> set (p @ sr). \<not> isHash c"
      using p sr query_char by (auto simp: hash_isHash)
    moreover have "hs = [] \<or> \<not> \<not> isHash (hd hs)"
      using hs by (auto simp: hash_isHash)
    ultimately have "dropWhile (\<lambda>c. \<not> isHash c) ((p @ sr) @ hs) = hs"
      using takeWhile_prefix(2) [of "p @ sr" "\<lambda>c. \<not> isHash c" hs] by blast
    then have "tailHash (p @ sr @ hs) =
        (case hs of
           [] \<Rightarrow> []
         | c # cs \<Rightarrow> (let f = percentEncode fragmentSet cs in if f = [] then [] else CHR ''#'' # f))"
      by (simp add: tailHash_def)
    then show ?thesis
      using hs by (auto simp: percentEncode_id)
  qed
qed

subsection \<open>IPv4 addresses\<close>

lemma splitOn_nonempty: "splitOn d s \<noteq> []"
  by (induction s) (auto split: list.splits)

lemma splitOn_no_delimiter: "d \<notin> set s \<Longrightarrow> splitOn d s = [s]"
  by (induction s) auto

lemma splitOn_append:
  "d \<notin> set a \<Longrightarrow> splitOn d (a @ d # rest) = a # splitOn d rest"
  by (induction a) auto

lemma splitOn_single: "length (splitOn d s) = 1 \<Longrightarrow> splitOn d s = [s]"
proof (induction s)
  case Nil
  then show ?case by simp
next
  case (Cons c s)
  show ?case
  proof (cases "c = d")
    case True
    with Cons.prems splitOn_nonempty [of d s] show ?thesis
      by (cases "splitOn d s") auto
  next
    case False
    with Cons splitOn_nonempty [of d s] show ?thesis
      by (cases "splitOn d s") auto
  qed
qed

lemma endsInANumber_www:
  assumes "h \<noteq> []"
  shows "endsInANumber (''www.'' @ h) = endsInANumber h"
proof -
  let ?parts = "splitOn (CHR ''.'') h"
  have sp: "splitOn (CHR ''.'') (''www.'' @ h) = ''www'' # ?parts"
    using splitOn_append [of "CHR ''.''" "''www''" h] by simp
  have ne: "?parts \<noteq> []"
    by (rule splitOn_nonempty)
  have "last (ipv4Parts (''www.'' @ h)) = last (ipv4Parts h)"
  proof (cases "last ?parts = []")
    case False
    then show ?thesis
      using ne by (simp add: ipv4Parts_def sp)
  next
    case True
    have "length ?parts \<noteq> 1"
    proof
      assume "length ?parts = 1"
      then have "?parts = [h]"
        by (rule splitOn_single)
      with True assms show False
        by simp
    qed
    then have l: "1 < length ?parts"
      using ne by (cases ?parts) auto
    then have "butlast ?parts \<noteq> []"
      by (cases ?parts) auto
    then show ?thesis
      using True l ne by (simp add: ipv4Parts_def sp)
  qed
  then show ?thesis
    using assms by (simp add: endsInANumber_def)
qed

lemma digits_no_dot: "CHR ''.'' \<notin> set (digits k)"
  using digits_isDigit [of k] by (auto simp: list_all_iff isDigit_def)

lemma digits_hd: "10 \<le> k \<Longrightarrow> hd (digits k) \<noteq> CHR ''0''"
proof (induction k rule: digits.induct)
  case (1 n)
  show ?case
  proof (cases "n div 10 < 10")
    case True
    have "digits n = [char_of (48 + n div 10), char_of (48 + n mod 10)]"
      using 1(2) True by (subst digits.simps, subst digits.simps) simp
    moreover have "char_of (48 + n div 10) \<noteq> CHR ''0''"
    proof
      assume "char_of (48 + n div 10) = CHR ''0''"
      then have "charCode (char_of (48 + n div 10)) = charCode (CHR ''0'')"
        by simp
      then have "48 + n div 10 = 48"
        using True by (simp add: charCode_char_of) (simp add: charCode_def)
      then show False
        using 1(2) by simp
    qed
    ultimately show ?thesis
      by simp
  next
    case False
    then have "hd (digits (n div 10)) \<noteq> CHR ''0''"
      using 1 by simp
    moreover have "digits n = digits (n div 10) @ [char_of (48 + n mod 10)]"
      using 1(2) by (subst digits.simps) simp
    ultimately show ?thesis
      using digits_nonempty [of "n div 10"] by simp
  qed
qed

lemma digits_length: "2 \<le> length (digits k) \<Longrightarrow> 10 \<le> k"
  by (subst (asm) digits.simps) (simp split: if_splits)

lemma lower_digit: "isDigit c \<Longrightarrow> toLowerChar c \<noteq> CHR ''x''"
  by (auto simp: isDigit_def toLowerChar_def charCode_def)

lemma parseIPv4Number_digits: "parseIPv4Number (digits k) = Some k"
proof -
  have a: "\<not> (2 \<le> length (digits k) \<and> toLowerCase (take 2 (digits k)) = ''0x'')"
  proof
    assume h: "2 \<le> length (digits k) \<and> toLowerCase (take 2 (digits k)) = ''0x''"
    then obtain a b r where d: "digits k = a # b # r"
      by (cases "digits k"; cases "tl (digits k)") auto
    then have "isDigit b"
      using digits_isDigit [of k] by simp
    with h d lower_digit [of b] show False
      by (simp add: toLowerCase_def)
  qed
  have b: "\<not> (2 \<le> length (digits k) \<and> hd (digits k) = CHR ''0'')"
    using digits_hd [of k] digits_length [of k] by auto
  show ?thesis
    using a b by (auto simp: parseIPv4Number_def digits_nonempty parseRadix_digits)
qed

lemma ipv4Parse_serialize:
  assumes "n < 4294967296"
  shows "ipv4Parse (serializeIPv4 n) = Some n"
proof -
  let ?a = "n div 16777216 mod 256" and ?b = "n div 65536 mod 256"
  let ?c = "n div 256 mod 256" and ?d = "n mod 256"
  have sp: "splitOn (CHR ''.'') (serializeIPv4 n) = [digits ?a, digits ?b, digits ?c, digits ?d]"
    using splitOn_append [OF digits_no_dot] splitOn_no_delimiter [OF digits_no_dot]
    by (simp add: serializeIPv4_def)
  have parts: "ipv4Parts (serializeIPv4 n) = [digits ?a, digits ?b, digits ?c, digits ?d]"
    by (simp add: ipv4Parts_def sp digits_nonempty)
  have d1: "n div 65536 = n div 256 div 256" and d2: "n div 16777216 = n div 256 div 256 div 256"
    by (simp_all add: div_mult2_eq [symmetric])
  have "n div 256 div 256 div 256 < 256"
    using assms by (simp add: div_mult2_eq [symmetric])
  then have top: "n div 256 div 256 div 256 mod 256 = n div 256 div 256 div 256"
    by simp
  have e1: "n = n div 256 * 256 + n mod 256"
    and e2: "n div 256 = n div 256 div 256 * 256 + n div 256 mod 256"
    and e3: "n div 256 div 256 = n div 256 div 256 div 256 * 256 + n div 256 div 256 mod 256"
    by simp_all
  have tp: "?a = n div 16777216"
    using top by (simp add: d2)
  have bd: "n div 16777216 \<le> 255"
    using \<open>n div 256 div 256 div 256 < 256\<close> by (simp add: d2)
  have v: "?d + (n div 16777216 * 16777216 + (?b * 65536 + ?c * 256)) = n"
    unfolding d1 d2 using e1 e2 e3 by linarith
  have z: "zip [0 ..< 3] [?a, ?b, ?c] = [(0, ?a), (1, ?b), (2, ?c)]"
    by (simp add: upt_rec)
  have m: "?b \<le> 255" "?c \<le> 255" "?d < 256"
    by simp_all
  show ?thesis
    using v bd m by (simp add: ipv4Parse_def parts parseIPv4Number_digits z tp not_le)
qed

lemma short_list_cases:
  assumes "xs \<noteq> []" and "length xs \<le> 4"
  shows "(\<exists>a. xs = [a]) \<or> (\<exists>a b. xs = [a, b]) \<or> (\<exists>a b c. xs = [a, b, c]) \<or>
         (\<exists>a b c d. xs = [a, b, c, d])"
proof -
  obtain a r1 where 1: "xs = a # r1"
    using assms(1) by (cases xs) auto
  show ?thesis
  proof (cases r1)
    case Nil
    with 1 show ?thesis by simp
  next
    case (Cons b r2)
    note 2 = this
    show ?thesis
    proof (cases r2)
      case Nil
      with 1 2 show ?thesis by simp
    next
      case (Cons c r3)
      note 3 = this
      show ?thesis
      proof (cases r3)
        case Nil
        with 1 2 3 show ?thesis by simp
      next
        case (Cons d r4)
        with 1 2 3 assms(2) have "r4 = []"
          by simp
        with 1 2 3 Cons show ?thesis by simp
      qed
    qed
  qed
qed

lemma those_length: "those xs = Some ys \<Longrightarrow> length ys = length xs"
  by (induction xs arbitrary: ys) (auto split: option.splits)

lemma ipv4Parse_bound:
  assumes "ipv4Parse s = Some n"
  shows "n < 4294967296"
proof -
  let ?parts = "ipv4Parts s"
  have ne: "?parts \<noteq> []"
    using splitOn_nonempty [of "CHR ''.''" s]
    by (cases "splitOn (CHR ''.'') s" rule: rev_cases) (auto simp: ipv4Parts_def Let_def)
  from assms obtain ns where
    th: "those (map parseIPv4Number ?parts) = Some ns"
    and le: "length ?parts \<le> 4"
    and ok: "\<not> list_ex (\<lambda>n. 255 < n) (butlast ns)" "\<not> 256 ^ (5 - length ns) \<le> last ns"
    and n: "n = last ns + sum_list (map (\<lambda>(i, n). n * 256 ^ (3 - i))
                                       (zip [0 ..< length ns - 1] (butlast ns)))"
    by (auto simp: ipv4Parse_def Let_def split: if_splits option.splits)
  have len: "length ns = length ?parts"
    using those_length [OF th] by simp
  then have "ns \<noteq> []" "length ns \<le> 4"
    using le ne by auto
  then consider (1) a where "ns = [a]" | (2) a b where "ns = [a, b]"
    | (3) a b c where "ns = [a, b, c]" | (4) a b c d where "ns = [a, b, c, d]"
    using short_list_cases [of ns] by blast
  then show ?thesis
  proof cases
    case 1
    then show ?thesis using ok n by simp
  next
    case 2
    then show ?thesis using ok n by simp
  next
    case 3
    have z: "zip [0 ..< 2] [a, b] = [(0, a), (1, b)]"
      by (simp add: upt_rec)
    show ?thesis using 3 ok n by (simp add: z)
  next
    case 4
    have z: "zip [0 ..< 3] [a, b, c] = [(0, a), (1, b), (2, c)]"
      by (simp add: upt_rec)
    show ?thesis using 4 ok n by (simp add: z)
  qed
qed

lemma stripWww_chars:
  assumes "list_all okHostChar a"
  shows "list_all okHostChar (stripWww a)"
  using assms by (auto simp: stripWww_def list_all_iff dest: in_set_dropD)

lemma serializeIPv4_not_www: "\<not> startsWith (serializeIPv4 n) ''www.''"
proof -
  obtain c cs where d: "digits (n div 16777216 mod 256) = c # cs"
    using digits_nonempty by (cases "digits (n div 16777216 mod 256)") auto
  then have "isDigit c"
    using digits_isDigit [of "n div 16777216 mod 256"] by simp
  then have "c \<noteq> CHR ''w''"
    by (auto simp: isDigit_def)
  then show ?thesis
    by (simp add: serializeIPv4_def d startsWith_def)
qed

lemma hostParse_ipv4:
  assumes "n < 4294967296"
  shows "hostParse (serializeIPv4 n) = Some (serializeIPv4 n)"
proof -
  let ?h = "serializeIPv4 n"
  have ok: "list_all okHostChar ?h" and ne: "?h \<noteq> []"
    using serializeIPv4_ok by simp_all
  have "CHR ''%'' \<notin> set ?h"
    using ok okHostChar_not_percent by (auto simp: list_all_iff)
  then have d: "percentDecode ?h = ?h"
    by (rule percentDecode_no_percent)
  have b: "\<not> startsWith ?h ''[''"
    using ne ok
    by (cases ?h) (auto simp: startsWith_def okHostChar_def forbiddenDomainCodePoint_def
        forbiddenHostCodePoint_def charCode_def)
  have a: "domainToASCII ?h = Some ?h"
    using ok toLowerCase_ok [OF ok]
    by (auto simp: domainToASCII_def list_all_iff okHostChar_def)
  have f: "\<not> list_ex forbiddenDomainCodePoint ?h"
    using ok by (auto simp: list_ex_iff list_all_iff okHostChar_def)
  show ?thesis
    using ne by (simp add: hostParse_def d b a f ipv4Parse_serialize [OF assms])
qed

lemma hostParse_kind:
  assumes "hostParse x = Some a"
  shows "\<not> endsInANumber a \<or> (\<exists>n. n < 4294967296 \<and> a = serializeIPv4 n)"
proof (cases "domainToASCII (percentDecode x)")
  case None
  with assms show ?thesis
    by (simp add: hostParse_def split: if_splits)
next
  case (Some d)
  show ?thesis
  proof (cases "endsInANumber d")
    case True
    with assms Some obtain n where "ipv4Parse d = Some n" "a = serializeIPv4 n"
      by (auto simp: hostParse_def split: if_splits)
    then show ?thesis
      using ipv4Parse_bound by blast
  next
    case False
    with assms Some show ?thesis
      by (auto simp: hostParse_def split: if_splits)
  qed
qed

text \<open>A host that the parser wrote, without its leading \<open>www.\<close>, parses to itself.\<close>

lemma hostParse_stripWww:
  assumes "hostParse x = Some a" and "stripWww a \<noteq> []"
  shows "hostParse (stripWww a) = Some (stripWww a)"
proof -
  have ok: "list_all okHostChar a"
    using hostParse_chars [OF assms(1)] by simp
  from hostParse_kind [OF assms(1)] show ?thesis
  proof
    assume n: "\<not> endsInANumber a"
    have "\<not> endsInANumber (stripWww a)"
    proof (cases "startsWith a ''www.''")
      case False
      with n show ?thesis
        by (simp add: stripWww_def)
    next
      case True
      then have "take 4 a = ''www.''"
        by (simp add: startsWith_def eval_nat_numeral)
      then have "a = ''www.'' @ drop 4 a"
        using append_take_drop_id [of 4 a] by simp
      moreover have "drop 4 a \<noteq> []"
        using assms(2) True by (simp add: stripWww_def)
      ultimately have "endsInANumber a = endsInANumber (drop 4 a)"
        using endsInANumber_www [of "drop 4 a"] by simp
      with n True show ?thesis
        by (simp add: stripWww_def)
    qed
    then show ?thesis
      using assms(2) ok by (intro hostParse_ok) (simp_all add: stripWww_chars)
  next
    assume "\<exists>n. n < 4294967296 \<and> a = serializeIPv4 n"
    then obtain n where n: "n < 4294967296" "a = serializeIPv4 n"
      by blast
    then have "stripWww a = a"
      using serializeIPv4_not_www by (simp add: stripWww_def)
    then show ?thesis
      using hostParse_ipv4 [OF n(1)] n(2) by simp
  qed
qed

subsection \<open>The normal form\<close>

lemma stripProtocol_https: "stripProtocol (''https://'' @ x) = x"
  by (simp add: stripProtocol_def startsWith_def)

lemma stripProtocol_http: "stripProtocol (''http://'' @ x) = x"
  by (simp add: stripProtocol_def startsWith_def)

lemma rebuild_unfold:
  "rebuild U =
     stripProtocol (protocol U @ ''//'' @ stripWww (toLowerCase (hostname U)) @
       (if port U \<noteq> [] then CHR '':'' # port U else []) @
       sansSlash (pathname U) @ search U @ hash U)"
  by (simp add: rebuild_def Let_def sansSlash_def)

lemma rebuild_eq:
  assumes "protocol U = ''https:'' \<or> protocol U = ''http:''"
  shows "rebuild U =
           stripWww (toLowerCase (hostname U)) @
           (if port U \<noteq> [] then CHR '':'' # port U else []) @
           sansSlash (pathname U) @ search U @ hash U"
proof -
  let ?n = "stripWww (toLowerCase (hostname U)) @
           (if port U \<noteq> [] then CHR '':'' # port U else []) @
           sansSlash (pathname U) @ search U @ hash U"
  from assms have "protocol U @ ''//'' @ ?n = ''https://'' @ ?n \<or>
                   protocol U @ ''//'' @ ?n = ''http://'' @ ?n"
    by auto
  then have "stripProtocol (protocol U @ ''//'' @ ?n) = ?n"
    using stripProtocol_https [of ?n] stripProtocol_http [of ?n] by auto
  then show ?thesis
    by (simp only: rebuild_unfold)
qed

lemma URL_parse_form:
  assumes "URL_parse w = Some U"
  shows "(protocol U = ''https:'' \<or> protocol U = ''http:'') \<and>
         (\<exists>x. hostParse x = Some (hostname U)) \<and>
         (port U = [] \<or> (\<exists>n. port U = digits n \<and> n \<le> 65535)) \<and>
         (\<exists>t. pathname U = tailPathname t \<and> search U = tailSearch t \<and> hash U = tailHash t)"
proof -
  from assms obtain scheme rest where
    sch: "scheme = ''https'' \<or> scheme = ''http''" and ps: "parseSpecial scheme rest = Some U"
    by (auto simp: URL_parse_def Let_def split: if_splits)
  from ps obtain x h pb p t where
    h: "hostParse x = Some h" and pp: "portParse scheme pb = Some p"
    and U: "U = \<lparr>protocol = scheme @ '':'', hostname = h, port = p, pathname = tailPathname t,
                 search = tailSearch t, hash = tailHash t\<rparr>"
    by (auto simp: parseSpecial_def Let_def split: if_splits option.splits)
  show ?thesis
    using sch h portParse_result [OF pp]
    by (auto simp: U)
qed

lemma URL_parse_canonical:
  assumes h: "h \<noteq> []" "list_all okHostChar h" "hostParse h = Some h"
    and p: "p = [] \<or> (\<exists>n. p = digits n \<and> n \<le> 65535 \<and> digits n \<noteq> ''443'')"
    and t: "t = [] \<or> isAuthorityEnd (hd t)" "list_all visible t"
  shows "URL_parse (''https://'' @ h @ (if p \<noteq> [] then CHR '':'' # p else []) @ t) =
           Some \<lparr>protocol = ''https:'', hostname = h, port = p, pathname = tailPathname t,
                 search = tailSearch t, hash = tailHash t\<rparr>"
proof -
  let ?pp = "if p \<noteq> [] then CHR '':'' # p else []"
  let ?w = "''https://'' @ h @ ?pp @ t"
  have pd: "list_all isDigit p"
    using p digits_isDigit by auto
  have hv: "list_all visible h"
    using h(2) okHostChar_visible by (auto simp: list_all_iff)
  have pv: "list_all visible ?pp"
    using pd isDigit_codes(3) by (auto simp: list_all_iff visible_def)
  have "list_all visible ?w"
    using hv pv t(2) by (simp add: visible_def)
  then have pre: "preprocess ?w = ?w"
    by (rule preprocess_visible)
  have sch: "toLowerCase (takeWhile (\<lambda>c. charCode c \<noteq> 58) ?w) = ''https''"
    by (simp add: toLowerCase_def toLowerChar_def)
  have rest: "drop 1 (dropWhile (\<lambda>c. charCode c \<noteq> 58) ?w) = ''//'' @ h @ ?pp @ t"
    by simp
  have hd_h: "\<not> isSlash (hd h)"
    using h(1,2) okHostChar_codes(6) [of "hd h"] by (cases h) auto
  have r: "dropWhile isSlash (''//'' @ h @ ?pp @ t) = h @ ?pp @ t"
    using h(1) hd_h by (cases h) (auto simp: isSlash_def)
  have na: "\<forall>c \<in> set (h @ ?pp). \<not> isAuthorityEnd c"
    using h(2) pd okHostChar_codes(5) isDigit_codes(2)
    by (auto simp: list_all_iff isAuthorityEnd_def isSlash_def isPathEnd_def)
  have e: "t = [] \<or> \<not> \<not> isAuthorityEnd (hd t)"
    using t(1) by simp
  have au: "takeWhile (\<lambda>c. \<not> isAuthorityEnd c) (h @ ?pp @ t) = h @ ?pp"
    and tl: "dropWhile (\<lambda>c. \<not> isAuthorityEnd c) (h @ ?pp @ t) = t"
    using takeWhile_prefix [of "h @ ?pp" "\<lambda>c. \<not> isAuthorityEnd c" t] na e by auto
  have at: "afterLastAt (h @ ?pp) = h @ ?pp"
    using h(2) pd okHostChar_codes(4) isDigit_codes(1)
    by (intro afterLastAt_none) (auto simp: list_all_iff)
  have hc: "\<forall>c \<in> set h. charCode c \<noteq> 58 \<and> charCode c \<noteq> 91 \<and> charCode c \<noteq> 93"
    using h(2) okHostChar_codes(1-3) by (auto simp: list_all_iff)
  have sp: "splitHostPort False [] (h @ ?pp) = (h, p)"
    using splitHostPort_plain [OF hc, of "[]"] by auto
  have hp: "hostParse h = Some h"
    by (rule h(3))
  have po: "portParse ''https'' p = Some p"
  proof (cases "p = []")
    case True
    then show ?thesis
      by (simp add: portParse_def)
  next
    case False
    with p obtain n where "p = digits n" "n \<le> 65535" "digits n \<noteq> ''443''"
      by auto
    then show ?thesis
      by (simp add: portParse_digits)
  qed
  have "parseSpecial ''https'' (''//'' @ h @ ?pp @ t) =
          Some \<lparr>protocol = ''https:'', hostname = h, port = p, pathname = tailPathname t,
                search = tailSearch t, hash = tailHash t\<rparr>"
    unfolding parseSpecial_def Let_def r au tl at sp
    using h(1) by (simp add: hp po)
  then show ?thesis
    unfolding URL_parse_def Let_def pre sch rest by simp
qed


text \<open>
  C3, amended.  Canonicalization is idempotent on every URL that parses and whose
  canonical form is clean: the host, lower-cased and without its one leading
  \<open>www.\<close>, is not empty and does not begin with \<open>www.\<close> again; the path has at
  most one trailing slash; the port is not 443.
\<close>

theorem canonical_idempotent:
  assumes parse: "URL_parse (if hasProtocol (trim u) then trim u else ''https://'' @ trim u) = Some U"
    and host: "stripWww (toLowerCase (hostname U)) \<noteq> []"
      "\<not> startsWith (stripWww (toLowerCase (hostname U))) ''www.''"
    and path: "\<not> endsWith (pathname U) ''//''"
    and port: "port U \<noteq> ''443''"
  shows "getCanonicalUrl (getCanonicalUrl u) = getCanonicalUrl u"
proof -
  from URL_parse_form [OF parse] obtain x t where
    pr: "protocol U = ''https:'' \<or> protocol U = ''http:''"
    and hx: "hostParse x = Some (hostname U)"
    and po: "port U = [] \<or> (\<exists>n. port U = digits n \<and> n \<le> 65535)"
    and pn: "pathname U = tailPathname t"
    and sr: "search U = tailSearch t" and hs: "hash U = tailHash t"
    by blast
  have hok: "list_all okHostChar (hostname U)"
    using hostParse_chars [OF hx] by simp
  define h where "h = stripWww (toLowerCase (hostname U))"
  define pp where "pp = (if port U \<noteq> [] then CHR '':'' # port U else [])"
  define P where "P = parsePath (takeWhile (\<lambda>c. \<not> isPathEnd c) t)"
  define P' where "P' = (if last P = [] then butlast P else P)"
  define p' where "p' = serializePath P'"
  define t' where "t' = p' @ search U @ hash U"
  have P: "list_all goodSegment P" "P \<noteq> []"
    using parsePath_good by (simp_all add: P_def)
  have pnP: "pathname U = serializePath P"
    by (simp add: pn tailPathname_def P_def)
  have cl: "list_all goodSegment P'" "P' = [] \<or> last P' \<noteq> []"
    using clean_path [OF P _ P'_def] path by (simp_all add: pnP)
  have ss: "sansSlash (pathname U) = p'"
    using sansSlash_serializePath [OF P] by (simp add: pnP p'_def P'_def)
  have n: "normalize u = h @ pp @ t'"
    using parse rebuild_eq [OF pr]
    by (simp add: normalize_def Let_def h_def pp_def t'_def ss)
  have hc: "list_all okHostChar h"
    using hok by (simp add: h_def toLowerCase_ok stripWww_chars)
  have nw: "\<not> startsWith h ''www.''"
    using host(2) by (simp add: h_def)
  have hl: "stripWww (toLowerCase h) = h"
    using hc nw by (simp add: toLowerCase_ok stripWww_def)
  have srf: "search U = [] \<or>
       (\<exists>q. search U = CHR ''?'' # q \<and> q \<noteq> [] \<and> (\<forall>c \<in> set q. \<not> specialQuerySet c))"
    using tailSearch_form [of t] by (simp add: sr)
  have hsf: "hash U = [] \<or>
       (\<exists>f. hash U = CHR ''#'' # f \<and> f \<noteq> [] \<and> (\<forall>c \<in> set f. \<not> fragmentSet c))"
    using tailHash_form [of t] by (simp add: hs)
  have pc: "\<forall>c \<in> set p'. \<not> isPathEnd c \<and> \<not> isHash c \<and> visible c"
    using serializePath_chars [OF cl(1)] by (simp add: p'_def)
  have tv: "list_all visible t'"
    using pc srf hsf query_char fragment_char
    by (auto simp: t'_def list_all_iff visible_def)
  have te: "t' = [] \<or> isAuthorityEnd (hd t')"
  proof -
    have a: "p' = [] \<or> isAuthorityEnd (hd p')"
      using serializePath_hd [of P'] by (auto simp: p'_def slash_char)
    have b: "search U = [] \<or> isAuthorityEnd (hd (search U))"
      using srf by (auto simp: isAuthorityEnd_def hash_isHash)
    have c: "hash U = [] \<or> isAuthorityEnd (hd (hash U))"
      using hsf by (auto simp: isAuthorityEnd_def hash_isHash)
    show ?thesis
      using a b c by (auto simp: t'_def hd_append)
  qed
  have pf: "port U = [] \<or> (\<exists>n. port U = digits n \<and> n \<le> 65535 \<and> digits n \<noteq> ''443'')"
    using po port by auto
  have w: "''https://'' @ h @ pp @ t' =
           ''https://'' @ h @ (if port U \<noteq> [] then CHR '':'' # port U else []) @ t'"
    by (simp add: pp_def)
  have hh: "hostParse h = Some h"
    using hostParse_stripWww [OF hx] host(1) hok by (simp add: h_def toLowerCase_ok)
  have parse2: "URL_parse (''https://'' @ h @ pp @ t') =
      Some \<lparr>protocol = ''https:'', hostname = h, port = port U, pathname = tailPathname t',
            search = tailSearch t', hash = tailHash t'\<rparr>"
    unfolding w
    using host(1) hc hh pf te tv
    by (intro URL_parse_canonical) (simp_all add: h_def)
  have re: "tailPathname (p' @ search U @ hash U) = serializePath (parsePath p')"
    "tailSearch (p' @ search U @ hash U) = search U"
    "tailHash (p' @ search U @ hash U) = hash U"
    using reparse_tail [of p' "search U" "hash U"] pc srf hsf
    by simp_all
  have rp: "sansSlash (serializePath (parsePath p')) = p'"
    using reparse_path [OF cl] by (simp add: p'_def)
  have vis: "list_all visible (''https://'' @ h @ pp @ t')"
  proof -
    have "list_all visible h"
      using hc okHostChar_visible by (auto simp: list_all_iff)
    moreover have "list_all visible pp"
      using po digits_isDigit isDigit_codes(3)
      by (auto simp: pp_def list_all_iff visible_def)
    ultimately show ?thesis
      using tv by (simp add: visible_def)
  qed
  have tr: "trim (''https://'' @ h @ pp @ t') = ''https://'' @ h @ pp @ t'"
    using vis by (rule trim_visible)
  have hp: "hasProtocol (''https://'' @ h @ pp @ t')"
    by (simp add: hasProtocol_def startsWith_def)
  have "normalize (''https://'' @ h @ pp @ t') =
          rebuild \<lparr>protocol = ''https:'', hostname = h, port = port U, pathname = tailPathname t',
                   search = tailSearch t', hash = tailHash t'\<rparr>"
    unfolding normalize_def Let_def tr using parse2 hp by simp
  also have "\<dots> = h @ pp @ t'"
    by (subst rebuild_eq) (simp_all add: hl re rp pp_def t'_def)
  finally show ?thesis
    by (simp add: getCanonicalUrl_def n)
qed

theorem canonical_idempotent_witness:
  "getCanonicalUrl '' http://WWW.Example.COM/a/../B c/?q=1 2#Frag '' =
     ''https://example.com/B%20c?q=1%202#Frag'' \<and>
   getCanonicalUrl (getCanonicalUrl '' http://WWW.Example.COM/a/../B c/?q=1 2#Frag '') =
     getCanonicalUrl '' http://WWW.Example.COM/a/../B c/?q=1 2#Frag ''"
proof -
  let ?u = "'' http://WWW.Example.COM/a/../B c/?q=1 2#Frag ''"
  let ?U = "\<lparr>protocol = ''http:'', hostname = ''www.example.com'', port = [],
             pathname = ''/B%20c/'', search = ''?q=1%202'', hash = ''#Frag''\<rparr>"
  have parse: "URL_parse (if hasProtocol (trim ?u) then trim ?u else ''https://'' @ trim ?u) = Some ?U"
    by code_simp
  have h1: "stripWww (toLowerCase (hostname ?U)) \<noteq> []"
    by code_simp
  have h2: "\<not> startsWith (stripWww (toLowerCase (hostname ?U))) ''www.''"
    by code_simp
  have h4: "\<not> endsWith (pathname ?U) ''//''"
    by code_simp
  have h5: "port ?U \<noteq> ''443''"
    by simp
  have c: "getCanonicalUrl ?u = ''https://example.com/B%20c?q=1%202#Frag''"
    by code_simp
  show ?thesis
    using canonical_idempotent [OF parse h1 h2 h4 h5] c by simp
qed


section \<open>The error classifier\<close>

text \<open>
  C7.  For a response with a status and no error object, the worker's call
  \<open>handle(null, response)\<close>, the classifier throws: the status is a number, and
  the argument \<open>error.message\<close> of \<open>handleHttpStatus\<close> reads a property of \<open>null\<close>.
\<close>

theorem handle_null_error_throws:
  "handle None (Some 404) = Inl nullMessageError"
  by (simp add: handle_def orElse_def truthy_def)

lemma handle_null_error_never_returns:
  "handle None response = Inl nullMessageError"
  by (simp add: handle_def Let_def split: jsval.split)

lemma handle_error_object_returns:
  "\<exists>r. handle (Some e) response = Inr r"
  by (simp add: handle_def Let_def split: jsval.split)

text \<open>
  In \<open>scrapeUrl\<close> the exception is caught and classified in its turn, as an unknown
  error: every status from 400 on, also a 404, is reported as retryable, with
  the message of the \<open>TypeError\<close> and no HTTP status.
\<close>

lemma scrapeUrl_client_error_retryable:
  "scrapeUrl 3 1 0 \<lparr>req_id = 0, req_url = ''https://example.com'', req_retryCount = Some 0,
                     req_priority = Some 1\<rparr> (responseWithStatus 404) =
   Inl \<lparr>fail_id = 0, fail_url = ''https://example.com'',
        fail_errorMessage = ''Cannot read properties of null (reading 'message')'',
        fail_retryCount = 0, fail_maxRetries = 3, fail_canRetry = True,
        fail_httpStatus = None, fail_failedAt = 1\<rparr>"
  by code_simp

text \<open>
  C8.  The table of \<open>handleHttpStatus\<close>: 2xx and 4xx other than 408 and 429 are
  not retryable, 408, 429 and every status from 500 on are, and the status is
  returned as it came.
\<close>

theorem handleHttpStatus_table:
  "(200 \<le> s \<and> s < 300 \<longrightarrow> \<not> her_canRetry (handleHttpStatus s m)) \<and>
   (400 \<le> s \<and> s < 500 \<and> s \<noteq> 408 \<and> s \<noteq> 429 \<longrightarrow> \<not> her_canRetry (handleHttpStatus s m)) \<and>
   (s = 408 \<or> s = 429 \<longrightarrow> her_canRetry (handleHttpStatus s m)) \<and>
   (500 \<le> s \<longrightarrow> her_canRetry (handleHttpStatus s m)) \<and>
   her_httpStatus (handleHttpStatus s m) = Some s"
  by (simp add: handleHttpStatus_def)

theorem handleHttpStatus_table_witness:
  "\<not> her_canRetry (handleHttpStatus 204 ''HTTP error'') \<and>
   \<not> her_canRetry (handleHttpStatus 404 ''HTTP error'') \<and>
   \<not> her_canRetry (handleHttpStatus 418 ''HTTP error'') \<and>
   her_canRetry (handleHttpStatus 429 ''HTTP error'') \<and>
   her_canRetry (handleHttpStatus 503 ''HTTP error'') \<and>
   her_canRetry (handleHttpStatus 599 ''HTTP error'') \<and>
   her_httpStatus (handleHttpStatus 503 ''HTTP error'') = Some 503"
  using handleHttpStatus_table [of 204 "''HTTP error''"]
    handleHttpStatus_table [of 404 "''HTTP error''"]
    handleHttpStatus_table [of 418 "''HTTP error''"]
    handleHttpStatus_table [of 429 "''HTTP error''"]
    handleHttpStatus_table [of 503 "''HTTP error''"]
    handleHttpStatus_table [of 599 "''HTTP error''"]
  by simp


section \<open>The store\<close>

lemma docs_update:
  "docs (snd (update now i data s)) =
     map (\<lambda>d. if oid d = i then applyUpdate now data d else d) (docs s)"
  by (simp add: update_def)

lemma retryCount_applyUpdate:
  "retryCount (applyUpdate now data d) = setRequired (u_retryCount data) (retryCount d)"
  by (simp add: applyUpdate_def)

lemma publish_docs: "publish m s = Inr s' \<Longrightarrow> docs s' = docs s"
  by (auto simp: publish_def split: option.splits)

lemma update_retryBounded:
  assumes "retryBounded cfg s"
    and "setRequired (u_retryCount data) (maxRetries cfg) \<le> maxRetries cfg"
  shows "retryBounded cfg (snd (update now i data s))"
  using assms
  by (cases "u_retryCount data")
     (auto simp: retryBounded_def docs_update list_all_iff retryCount_applyUpdate setRequired_def)


section \<open>The result consumers\<close>

text \<open>
  C4.  \<open>handleScrapeStarted\<close> sets the status and the user agent, but its update
  carries \<open>errorMessage: undefined\<close>, which does not reach the store: on the
  record that waits for its retry the breadcrumb \<open>Retry 1/3: ...\<close> is still
  there when the second attempt has started.
\<close>

theorem started_keeps_errorMessage:
  "map (\<lambda>d. (status d, retryCount d, errorMessage d)) (docs retryingState) =
     [(PENDING, 1, Some ''Retry 1/3: Connection refused'')] \<and>
   map (\<lambda>d. (status d, userAgent d, errorMessage d))
     (docs (handleScrapeStarted 2
        \<lparr>st_id = 0, st_url = ''https://example.com'', st_startedAt = 2,
         st_userAgent = ''Mozilla/5.0''\<rparr> retryingState)) =
     [(PROCESSING, Some ''Mozilla/5.0'', Some ''Retry 1/3: Connection refused'')]"
  by code_simp

lemma handleScrapeStarted_docs:
  "docs (handleScrapeStarted now m s) =
     map (\<lambda>d. if oid d = st_id m
               then d\<lparr>status := PROCESSING, userAgent := Some (st_userAgent m),
                      updatedAt := Some now\<rparr>
               else d) (docs s)"
  by (simp add: handleScrapeStarted_def docs_update applyUpdate_def noUpdate_def
        setRequired_def setOptional_def)

text \<open>
  C5.  On a retryable failure below the cap the record becomes \<open>PENDING\<close> with
  the count of the message plus one and the breadcrumb, and the request is
  published again with priority 2.  The content fields are not cleared: the
  update carries them as \<open>undefined\<close>.  A record that was scraped with success
  and then receives such a failure keeps its content, type, hash and date.
\<close>

theorem retry_keeps_content:
  "map (\<lambda>d. (status d, retryCount d, errorMessage d))
     (docs (handleScrapeFailure defaultConfig 6 lateFailure scrapedState)) =
     [(PENDING, 1, Some ''Retry 1/3: Connection refused'')] \<and>
   map (\<lambda>d. (content d, contentType d, contentHash d, fetchedAt d))
     (docs (handleScrapeFailure defaultConfig 6 lateFailure scrapedState)) =
     [(Some ''<html>OK</html>'', Some ''text/html'', Some ''c0ffee'', Some 5)] \<and>
   requests (handleScrapeFailure defaultConfig 6 lateFailure scrapedState) =
     requests scrapedState @
     [\<lparr>req_id = 0, req_url = ''https://example.com'', req_retryCount = Some 1,
       req_priority = Some 2\<rparr>]"
  by code_simp

lemma handleScrapeFailure_retry:
  assumes "fail_canRetry f" and "fail_retryCount f < maxRetries cfg"
    and "findById (fail_id f) s = Some d" and "channelError s = None"
  shows "docs (handleScrapeFailure cfg now f s) =
           map (\<lambda>d. if oid d = fail_id f
                     then d\<lparr>status := PENDING, retryCount := fail_retryCount f + 1,
                            errorMessage := Some (retryMessage (maxRetries cfg) f),
                            updatedAt := Some now\<rparr>
                     else d) (docs s)"
    and "requests (handleScrapeFailure cfg now f s) =
           requests s @
           [\<lparr>req_id = fail_id f, req_url = fail_url f,
             req_retryCount = Some (fail_retryCount f + 1), req_priority = Some 2\<rparr>]"
proof -
  have o: "oid d = fail_id f"
    using assms(3) by (auto simp: findById_def find_Some_iff)
  show "docs (handleScrapeFailure cfg now f s) =
           map (\<lambda>d. if oid d = fail_id f
                     then d\<lparr>status := PENDING, retryCount := fail_retryCount f + 1,
                            errorMessage := Some (retryMessage (maxRetries cfg) f),
                            updatedAt := Some now\<rparr>
                     else d) (docs s)"
    using assms
    by (simp add: handleScrapeFailure_def Let_def update_def publish_def applyUpdate_def
          noUpdate_def setRequired_def setOptional_def)
  show "requests (handleScrapeFailure cfg now f s) =
           requests s @
           [\<lparr>req_id = fail_id f, req_url = fail_url f,
             req_retryCount = Some (fail_retryCount f + 1), req_priority = Some 2\<rparr>]"
    using assms o
    by (simp add: handleScrapeFailure_def Let_def update_def publish_def applyUpdate_def)
qed

text \<open>
  C1.  What \<open>handleScrapeFailure\<close> writes for a failure it does not retry, and
  what the worker sends: \<open>createFailure\<close> marks a failure as retryable only below
  the cap, so the failure that exhausts the retries arrives as not retryable.
\<close>

lemma handleScrapeFailure_final:
  assumes "\<not> (fail_canRetry f \<and> fail_retryCount f < maxRetries cfg)"
  shows "docs (handleScrapeFailure cfg now f s) =
           map (\<lambda>d. if oid d = fail_id f
                     then d\<lparr>status := FAILED,
                            httpStatus := (case fail_httpStatus f of None \<Rightarrow> httpStatus d
                                           | Some h \<Rightarrow> Some h),
                            errorMessage :=
                              Some ((if fail_canRetry f
                                     then ''Maximum retries ('' @ numToString (maxRetries cfg) @
                                          '') exceeded''
                                     else ''Error is not retryable'') @ '': '' @
                                    fail_errorMessage f),
                            updatedAt := Some now\<rparr>
                     else d) (docs s)"
  using assms
  by (auto simp: handleScrapeFailure_def docs_update applyUpdate_def noUpdate_def
        setRequired_def setOptional_def failureReason_def ofOption_def split: option.splits)

lemma createFailure_retryable_below_cap:
  "fail_canRetry (createFailure n now request msg c h) \<Longrightarrow>
   fail_retryCount (createFailure n now request msg c h) < n"
  by (simp add: createFailure_def Let_def)

lemma worker_failure_reason:
  assumes "f = createFailure (maxRetries cfg) t request msg c h"
    and "\<not> (fail_canRetry f \<and> fail_retryCount f < maxRetries cfg)"
  shows "failureReason (maxRetries cfg) f = ''Error is not retryable''"
  using assms createFailure_retryable_below_cap [of "maxRetries cfg" t request msg c h]
  by (auto simp: failureReason_def)

text \<open>
  Scenario 5, retry exhaustion: after four attempts that each fail in a
  retryable way (four responses with status 503, or four refused connections)
  the record is \<open>FAILED\<close> with three retries, and its message starts with
  \<open>Error is not retryable\<close>, not with \<open>Maximum retries (3) exceeded\<close>.
\<close>

theorem retry_exhaustion_reason:
  "map (\<lambda>d. (status d, retryCount d, errorMessage d))
     (docs (attempts defaultConfig 3 1
        [responseWithStatus 503, responseWithStatus 503, responseWithStatus 503,
         responseWithStatus 503] submittedState)) =
     [(FAILED, 3,
       Some ''Error is not retryable: Cannot read properties of null (reading 'message')'')] \<and>
   map (\<lambda>d. (status d, retryCount d, errorMessage d))
     (docs (attempts defaultConfig 3 1
        [connectionRefused, connectionRefused, connectionRefused, connectionRefused]
        submittedState)) =
     [(FAILED, 3, Some ''Error is not retryable: Connection refused'')]"
  by code_simp

lemma started_retryBounded:
  "retryBounded cfg s \<Longrightarrow> retryBounded cfg (handleScrapeStarted now m s)"
  unfolding handleScrapeStarted_def
  by (rule update_retryBounded) (simp_all add: noUpdate_def setRequired_def)

lemma result_retryBounded:
  "retryBounded cfg s \<Longrightarrow> retryBounded cfg (handleScrapeResult now m s)"
  unfolding handleScrapeResult_def Let_def
  by (rule update_retryBounded) (simp_all add: noUpdate_def setRequired_def)

lemma failure_retryBounded:
  assumes "retryBounded cfg s"
  shows "retryBounded cfg (handleScrapeFailure cfg now m s)"
proof (cases "fail_canRetry m \<and> fail_retryCount m < maxRetries cfg")
  case True
  let ?data = "noUpdate\<lparr>u_retryCount := Val (fail_retryCount m + 1),
                         u_status := Val PENDING,
                         u_errorMessage := Val (retryMessage (maxRetries cfg) m),
                         u_content := Undef, u_contentType := Undef,
                         u_contentHash := Undef, u_fetchedAt := Undef\<rparr>"
  have "retryBounded cfg (snd (update now (fail_id m) ?data s))"
    using assms True by (intro update_retryBounded) (simp_all add: setRequired_def)
  with True show ?thesis
    by (auto simp: handleScrapeFailure_def Let_def retryBounded_def
          split: option.splits sum.splits dest: publish_docs)
next
  case False
  then have "docs (handleScrapeFailure cfg now m s) =
               docs (snd (update now (fail_id m)
                 (noUpdate\<lparr>u_status := Val FAILED,
                           u_errorMessage := Val (failureReason (maxRetries cfg) m @ '': '' @
                                                  fail_errorMessage m),
                           u_httpStatus := ofOption (fail_httpStatus m),
                           u_content := Undef, u_contentType := Undef,
                           u_contentHash := Undef\<rparr>) s))"
    by (auto simp: handleScrapeFailure_def)
  moreover have "retryBounded cfg (snd (update now (fail_id m)
                 (noUpdate\<lparr>u_status := Val FAILED,
                           u_errorMessage := Val (failureReason (maxRetries cfg) m @ '': '' @
                                                  fail_errorMessage m),
                           u_httpStatus := ofOption (fail_httpStatus m),
                           u_content := Undef, u_contentType := Undef,
                           u_contentHash := Undef\<rparr>) s))"
    using assms by (intro update_retryBounded) (simp_all add: noUpdate_def setRequired_def)
  ultimately show ?thesis
    by (simp add: retryBounded_def)
qed

lemma submitUrl_retryBounded:
  assumes "0 \<le> maxRetries cfg" and "retryBounded cfg (fst acc)"
  shows "retryBounded cfg (fst (submitUrl cfg now acc u))"
  using assms
  by (auto simp: submitUrl_def Let_def create_def retryBounded_def
        split: option.splits sum.splits dest!: publish_docs)

lemma submitUrls_retryBounded:
  assumes "0 \<le> maxRetries cfg" and "retryBounded cfg s"
  shows "retryBounded cfg (fst (submitUrls cfg now urls s))"
proof -
  have "retryBounded cfg (fst acc) \<Longrightarrow>
        retryBounded cfg (fst (foldl (submitUrl cfg now) acc urls))" for acc
    by (induction urls arbitrary: acc) (simp_all add: submitUrl_retryBounded [OF assms(1)])
  then show ?thesis
    using assms(2) by (simp add: submitUrls_def)
qed

lemma step_retryBounded:
  assumes "0 \<le> maxRetries cfg" and "retryBounded cfg s"
  shows "retryBounded cfg (step cfg s op)"
  using assms
  by (cases op)
     (simp_all add: step_def submitUrls_retryBounded started_retryBounded
        result_retryBounded failure_retryBounded)

text \<open>
  C6.  With a retry cap that is not negative, every record keeps
  \<open>retryCount \<le> MAX_RETRIES\<close> through every sequence of submissions and of
  started, result and failure messages, whatever the messages hold: \<open>submitUrls\<close>
  creates records with the count 0, and \<open>handleScrapeFailure\<close> writes the count
  of the message plus one only when that count is below the cap.
\<close>

theorem retryCount_bounded:
  assumes "0 \<le> maxRetries cfg" and "retryBounded cfg s"
  shows "retryBounded cfg (run cfg ops s)"
  using assms(2) unfolding run_def
  by (induction ops arbitrary: s) (simp_all add: step_retryBounded [OF assms(1)])

theorem retryCount_bounded_witness:
  "retryBounded defaultConfig
     (run defaultConfig
        [Submit 0 [''https://example.com'', ''ynet.co.il''],
         Started 1 \<lparr>st_id = 0, st_url = ''https://example.com'', st_startedAt = 1,
                    st_userAgent = ''Mozilla/5.0''\<rparr>,
         Failure 2 lateFailure,
         Failure 3 (lateFailure\<lparr>fail_retryCount := 2\<rparr>),
         Failure 4 (lateFailure\<lparr>fail_retryCount := 3\<rparr>),
         Failure 5 (lateFailure\<lparr>fail_retryCount := 7\<rparr>),
         Result 6 okResult]
        emptyState)"
proof -
  have "0 \<le> maxRetries defaultConfig"
    by (simp add: defaultConfig_def)
  moreover have "retryBounded defaultConfig emptyState"
    by (simp add: retryBounded_def emptyState_def)
  ultimately show ?thesis
    by (rule retryCount_bounded)
qed


section \<open>Submission\<close>

text \<open>Values of the normalizer and of the scenarios, computed once.\<close>

lemma normalize_examples:
  "normalize ''https://example.com'' = ''example.com''"
  "normalize ''ynet.co.il'' = ''ynet.co.il''"
  "normalize ''www.ynet.co.il'' = ''ynet.co.il''"
  "normalize ''https://ynet.co.il'' = ''ynet.co.il''"
  "normalize ''short.test/abc'' = ''short.test/abc''"
  "normalize ''https://short.test/abc'' = ''short.test/abc''"
  "normalize ''target.test'' = ''target.test''"
  by code_simp+

lemmas control_defs =
  submitUrls_def submitUrl_def getRecentByUrl_def recentMatch_def urlVariations_def
  getCanonicalUrl_def areEquivalent_def create_def publish_def update_def findById_def
  applyUpdate_def noUpdate_def setRequired_def setOptional_def ofOption_def notBefore_def
  createdLess_def skipEntry_def skipReason_def handleScrapeStarted_def handleScrapeResult_def
  handleScrapeFailure_def retryMessage_def failureReason_def defaultConfig_def emptyState_def
  Let_def

lemma ynetState_eq:
  "ynetState =
     \<lparr>docs =
        [\<lparr>oid = 0, url = ''https://ynet.co.il'', status = SUCCESS,
          content = Some ''<html>ynet</html>'', contentType = Some ''text/html'',
          httpStatus = Some 200, errorMessage = None,
          finalUrl = Some ''https://www.ynet.co.il/'', responseTime = Some 120,
          contentLength = Some 17, contentHash = Some ''c0ffee'',
          userAgent = Some userAgentString,
          redirectChain = [''https://ynet.co.il'', ''https://www.ynet.co.il''],
          retryCount = 0, fetchedAt = Some 5, lastScrapedAt = Some 5, createdAt = Some 0,
          updatedAt = Some 5\<rparr>],
      nextId = 1,
      requests = [\<lparr>req_id = 0, req_url = ''https://ynet.co.il'', req_retryCount = Some 0,
                   req_priority = Some 1\<rparr>],
      channelError = None\<rparr>"
  by (simp add: ynetState_def control_defs normalize_examples)

lemma shortLinkState_eq:
  "shortLinkState =
     \<lparr>docs =
        [\<lparr>oid = 0, url = ''https://short.test/abc'', status = SUCCESS,
          content = Some ''<html>target</html>'', contentType = Some ''text/html'',
          httpStatus = Some 200, errorMessage = None,
          finalUrl = Some ''https://target.test/'', responseTime = Some 120,
          contentLength = Some 19, contentHash = Some ''c0ffee'',
          userAgent = Some userAgentString,
          redirectChain = [''https://short.test/abc'', ''https://target.test''],
          retryCount = 0, fetchedAt = Some 5, lastScrapedAt = Some 5, createdAt = Some 0,
          updatedAt = Some 5\<rparr>],
      nextId = 1,
      requests = [\<lparr>req_id = 0, req_url = ''https://short.test/abc'', req_retryCount = Some 0,
                   req_priority = Some 1\<rparr>],
      channelError = None\<rparr>"
  by (simp add: shortLinkState_def control_defs normalize_examples)

lemma numToString_60: "numToString 60 = ''60''"
  by code_simp

text \<open>
  C9, as stated, fails twice.  In scenario 2 the URL \<open>www.ynet.co.il\<close> is
  equivalent to the URL of the record, \<open>https://ynet.co.il\<close>, so the reason is
  that of a direct match.  And where the record was reached through a redirect
  only, the reason goes on after \<open>Already scraped via redirect\<close> with the URL of
  the record.
\<close>

theorem skip_reason_counterexample:
  "map sk_reason (skipped (snd (submitUrls defaultConfig 10 [''www.ynet.co.il''] ynetState))) =
     [''Successfully scraped within 60 minutes''] \<and>
   map sk_reason (skipped (snd (submitUrls defaultConfig 10 [''target.test''] shortLinkState))) =
     [''Already scraped via redirect (https://short.test/abc '' @ redirectArrow @
      '' redirects to this URL)''] \<and>
   map sk_reason (skipped (snd (submitUrls defaultConfig 10 [''target.test''] shortLinkState))) \<noteq>
     [''Already scraped via redirect'']"
  by (simp add: ynetState_eq shortLinkState_eq control_defs normalize_examples numToString_60)

text \<open>
  C9, amended.  When \<open>submitUrls\<close> finds for the URL \<open>u\<close> a recent record \<open>r\<close> with
  status \<open>SUCCESS\<close> and a \<open>fetchedAt\<close>, it leaves the state as it is and reports
  \<open>u\<close> as skipped: the reason is \<open>Successfully scraped within N minutes\<close> if the URL
  of \<open>r\<close> is the canonical form of \<open>u\<close> or equivalent to \<open>u\<close>, and otherwise
  \<open>Already scraped via redirect\<close> followed by the URL of \<open>r\<close> in brackets; the next
  time the URL is available is \<open>fetchedAt\<close> plus the window of \<open>N\<close> minutes.
\<close>

theorem submitUrl_skips_recent_success:
  assumes "getRecentByUrl now u (scrapeInterval cfg) s = Some r"
    and "status r = SUCCESS" and "fetchedAt r = Some t"
  shows "submitUrl cfg now (s, resp) u =
           (s, resp\<lparr>skipped := skipped resp @
                 [\<lparr>sk_url = u,
                   sk_reason =
                     (if url r = getCanonicalUrl u \<or> areEquivalent (url r) u
                      then ''Successfully scraped within '' @ numToString (scrapeInterval cfg) @
                           '' minutes''
                      else ''Already scraped via redirect ('' @ url r @ '' '' @ redirectArrow @
                           '' redirects to this URL)''),
                   sk_lastScrapedAt = Some t,
                   sk_nextAvailableAt = Some (t + scrapeInterval cfg * 60 * 1000)\<rparr>]\<rparr>)"
  using assms by (simp add: submitUrl_def Let_def skipEntry_def skipReason_def)

theorem submitUrl_skips_recent_success_witness:
  "submitUrl defaultConfig 10 (shortLinkState, noResponse) ''target.test'' =
     (shortLinkState,
      noResponse\<lparr>skipped := skipped noResponse @
        [\<lparr>sk_url = ''target.test'',
          sk_reason = ''Already scraped via redirect (https://short.test/abc '' @ redirectArrow @
                      '' redirects to this URL)'',
          sk_lastScrapedAt = Some 5,
          sk_nextAvailableAt = Some 3600005\<rparr>]\<rparr>)"
proof -
  let ?r = "hd (docs shortLinkState)"
  have r: "getRecentByUrl 10 ''target.test'' (scrapeInterval defaultConfig) shortLinkState = Some ?r"
    by (simp add: shortLinkState_eq control_defs normalize_examples)
  have st: "status ?r = SUCCESS"
    by (simp add: shortLinkState_eq)
  have t: "fetchedAt ?r = Some 5"
    by (simp add: shortLinkState_eq)
  have u: "url ?r = ''https://short.test/abc''"
    by (simp add: shortLinkState_eq)
  have c: "getCanonicalUrl ''target.test'' = ''https://target.test''"
    by (simp add: getCanonicalUrl_def normalize_examples)
  have e: "\<not> areEquivalent ''https://short.test/abc'' ''target.test''"
    by (simp add: areEquivalent_def normalize_examples)
  show ?thesis
    using submitUrl_skips_recent_success [OF r st t, of noResponse] u c e
    by (simp add: defaultConfig_def)
qed


section \<open>The failure handler on its own\<close>

lemma numToString_small: "numToString 1 = ''1''" "numToString 3 = ''3''"
  by code_simp+

lemma submittedState_eq:
  "submittedState =
     \<lparr>docs =
        [\<lparr>oid = 0, url = ''https://example.com'', status = PENDING, content = None,
          contentType = None, httpStatus = None, errorMessage = None, finalUrl = None,
          responseTime = None, contentLength = None, contentHash = None, userAgent = None,
          redirectChain = [], retryCount = 0, fetchedAt = None, lastScrapedAt = None,
          createdAt = Some 0, updatedAt = Some 0\<rparr>],
      nextId = 1,
      requests = [\<lparr>req_id = 0, req_url = ''https://example.com'', req_retryCount = Some 0,
                   req_priority = Some 1\<rparr>],
      channelError = None\<rparr>"
  by (simp add: submittedState_def control_defs normalize_examples)

text \<open>
  A failure that \<open>handleScrapeFailure\<close> does not retry, here one marked retryable
  at the cap, as a control plane with a lower cap than the worker's can receive.
\<close>

theorem handleScrapeFailure_final_witness:
  "docs (handleScrapeFailure defaultConfig 7 (lateFailure\<lparr>fail_retryCount := 3\<rparr>) submittedState) =
     map (\<lambda>d. d\<lparr>status := FAILED, httpStatus := Some 503,
                  errorMessage := Some ''Maximum retries (3) exceeded: Connection refused'',
                  updatedAt := Some 7\<rparr>) (docs submittedState)"
proof -
  have "\<not> (fail_canRetry (lateFailure\<lparr>fail_retryCount := 3\<rparr>) \<and>
           fail_retryCount (lateFailure\<lparr>fail_retryCount := 3\<rparr>) < maxRetries defaultConfig)"
    by (simp add: defaultConfig_def)
  from handleScrapeFailure_final [OF this, of 7 submittedState] show ?thesis
    by (simp add: submittedState_eq lateFailure_def defaultConfig_def numToString_small)
qed

text \<open>
  What \<open>handleScrapeFailure\<close> does for a retryable failure below the cap, when
  the record exists and the channel publishes: status, count and breadcrumb are
  written, no other field of the record changes, and the request is published
  again.
\<close>

theorem handleScrapeFailure_retries:
  assumes "fail_canRetry f" and "fail_retryCount f < maxRetries cfg"
    and "findById (fail_id f) s = Some d" and "channelError s = None"
  shows "docs (handleScrapeFailure cfg now f s) =
           map (\<lambda>d. if oid d = fail_id f
                     then d\<lparr>status := PENDING, retryCount := fail_retryCount f + 1,
                            errorMessage := Some (''Retry '' @ numToString (fail_retryCount f + 1) @
                               ''/'' @ numToString (maxRetries cfg) @ '': '' @ fail_errorMessage f),
                            updatedAt := Some now\<rparr>
                     else d) (docs s) \<and>
         requests (handleScrapeFailure cfg now f s) =
           requests s @
           [\<lparr>req_id = fail_id f, req_url = fail_url f,
             req_retryCount = Some (fail_retryCount f + 1), req_priority = Some 2\<rparr>]"
  using handleScrapeFailure_retry [OF assms] by (simp add: retryMessage_def)

theorem handleScrapeFailure_retries_witness:
  "docs (handleScrapeFailure defaultConfig 6 lateFailure submittedState) =
     map (\<lambda>d. d\<lparr>status := PENDING, retryCount := 1,
                  errorMessage := Some ''Retry 1/3: Connection refused'',
                  updatedAt := Some 6\<rparr>) (docs submittedState) \<and>
   requests (handleScrapeFailure defaultConfig 6 lateFailure submittedState) =
     requests submittedState @
     [\<lparr>req_id = 0, req_url = ''https://example.com'', req_retryCount = Some 1,
       req_priority = Some 2\<rparr>]"
proof -
  have a: "fail_canRetry lateFailure" "fail_retryCount lateFailure < maxRetries defaultConfig"
    by (simp_all add: lateFailure_def defaultConfig_def)
  have b: "findById (fail_id lateFailure) submittedState = Some (hd (docs submittedState))"
    by (simp add: findById_def submittedState_eq lateFailure_def)
  have c: "channelError submittedState = None"
    by (simp add: submittedState_eq)
  from handleScrapeFailure_retries [OF a b c, of 6] show ?thesis
    by (simp add: submittedState_eq lateFailure_def defaultConfig_def numToString_small)
qed

text \<open>The failure the worker makes for a request at the cap.\<close>

theorem worker_failure_reason_witness:
  "failureReason 3
     (createFailure 3 9 \<lparr>req_id = 0, req_url = ''https://example.com'', req_retryCount = Some 3,
                          req_priority = Some 2\<rparr> ''Connection refused'' True (Some 503)) =
   ''Error is not retryable''"
proof -
  let ?f = "createFailure (maxRetries defaultConfig) 9
              \<lparr>req_id = 0, req_url = ''https://example.com'', req_retryCount = Some 3,
               req_priority = Some 2\<rparr> ''Connection refused'' True (Some 503)"
  have "\<not> (fail_canRetry ?f \<and> fail_retryCount ?f < maxRetries defaultConfig)"
    by (simp add: createFailure_def defaultConfig_def)
  from worker_failure_reason [OF refl this] show ?thesis
    by (simp add: defaultConfig_def)
qed

end
